(* ===== verification/Prelude.thy ===== *)
theory Prelude
  imports Main "HOL-Library.Monad_Syntax" "HOL-Library.AList" "HOL-Library.Word"
begin

text \<open>
  Shared vocabulary of the development: the Rust machine types the modelled code uses, the
  two kinds of failure (a panic is \<^term>\<open>None\<close>, a Rust \<open>Result\<close> is a sum), the clock, and
  the generic facts on lists and association lists that the component theories rely on.

  A function of the source that can panic has an option-valued model, written with the
  do-notation of \<open>HOL-Library.Monad_Syntax\<close>; an \<open>unwrap()\<close>, an \<open>expect()\<close>, an \<open>assert!\<close>, an
  index out of range and an unsigned subtraction below zero (checked in the workspace's
  development profile) all give \<^term>\<open>None\<close>. Counters of type \<open>u64\<close> are natural numbers:
  each of them is only ever incremented by one or copied from another counter, so the
  \<open>2 ^ 64\<close> bound is not reached and addition is not checked; subtraction is.
\<close>

section \<open>Proof collections\<close>

named_theorems frame_simps \<open>what an operation leaves unchanged\<close>
named_theorems inv_intros \<open>preservation of a component's invariant\<close>
named_theorems absence_simps \<open>branches that return early\<close>

section \<open>Rust failures\<close>

definition rust_assert :: "bool \<Rightarrow> unit option" where
  "rust_assert b = (if b then Some () else None)"

definition sub_u64 :: "nat \<Rightarrow> nat \<Rightarrow> nat option" where
  "sub_u64 a b = (if b \<le> a then Some (a - b) else None)"

definition index_vec :: "'a list \<Rightarrow> nat \<Rightarrow> 'a option" where
  "index_vec xs i = (if i < length xs then Some (xs ! i) else None)"

lemma rust_assert_simps [simp]:
  "rust_assert True = Some ()" "rust_assert False = None"
  by (simp_all add: rust_assert_def)

lemma rust_assert_Some [simp]: "rust_assert b = Some u \<longleftrightarrow> b"
  by (simp add: rust_assert_def)

lemma rust_assert_None [simp]: "rust_assert b = None \<longleftrightarrow> \<not> b"
  by (simp add: rust_assert_def)

lemma sub_u64_Some [simp]: "sub_u64 a b = Some c \<longleftrightarrow> b \<le> a \<and> c = a - b"
  by (auto simp: sub_u64_def)

lemma sub_u64_le: "b \<le> a \<Longrightarrow> sub_u64 a b = Some (a - b)"
  by simp

lemma sub_u64_Suc [simp]: "sub_u64 (Suc a) 1 = Some a" "sub_u64 (Suc a) (Suc 0) = Some a"
  by simp_all

lemma sub_u64_zero [simp]: "sub_u64 0 (Suc n) = None" "sub_u64 0 1 = None"
  by (simp_all add: sub_u64_def)

lemma index_vec_Some [simp]: "index_vec xs i = Some x \<longleftrightarrow> i < length xs \<and> x = xs ! i"
  by (auto simp: index_vec_def)

lemma index_vec_lt: "i < length xs \<Longrightarrow> index_vec xs i = Some (xs ! i)"
  by simp

section \<open>Time\<close>

text \<open>
  \<open>Instant\<close> and \<open>Duration\<close> count nanoseconds. \<open>Instant::duration_since\<close> and the subtraction
  of two instants saturate at zero.
\<close>

type_synonym instant = int
type_synonym duration = int

definition from_millis :: "int \<Rightarrow> duration" where
  "from_millis n = n * 1000000"

definition from_secs :: "int \<Rightarrow> duration" where
  "from_secs n = n * 1000000000"

definition duration_since :: "instant \<Rightarrow> instant \<Rightarrow> duration" where
  "duration_since a b = max 0 (a - b)"

lemma duration_since_nonneg [simp]: "0 \<le> duration_since a b"
  by (simp add: duration_since_def)

lemma duration_since_self [simp]: "duration_since a a = 0"
  by (simp add: duration_since_def)

section \<open>Association lists\<close>

text \<open>
  A \<open>HashMap\<close> is an association list without duplicate keys. The order of the list is the
  order in which the source iterates over the map, which the standard library leaves open.
\<close>

lemma map_of_update_key: "map_of (AList.update k v al) k' = (if k' = k then Some v else map_of al k')"
  by (simp add: update_conv')

lemma map_of_delete_key: "map_of (AList.delete k al) k' = (if k' = k then None else map_of al k')"
  by (simp add: delete_conv')

lemma map_of_map_values:
  "map_of (map (\<lambda>(k, v). (k, f v)) al) k = map_option f (map_of al k)"
  by (induction al) auto

lemma map_fst_map_values [simp]: "map fst (map (\<lambda>(k, v). (k, f v)) al) = map fst al"
  by (induction al) auto

lemma distinct_keys_update [simp]: "distinct (map fst (AList.update k v al)) = distinct (map fst al)"
proof
  show "distinct (map fst (AList.update k v al)) \<Longrightarrow> distinct (map fst al)"
    by (induction al) (auto simp: dom_update split: if_splits)
qed (rule distinct_update)

section \<open>Lists\<close>

lemma filter_length_append_le: "length (filter P xs) \<le> length xs"
  by (rule length_filter_le)

lemma nth_rev_sort_count:
  fixes xs :: "'a::linorder list"
  assumes k: "0 < k" "k \<le> length xs"
  shows "k \<le> length (filter (\<lambda>x. rev (sort xs) ! (k - 1) \<le> x) xs)"
proof -
  let ?d = "rev (sort xs)"
  have len: "length ?d = length xs" by simp
  have *: "?d ! (k - 1) \<le> ?d ! i" if "i < k" for i
  proof -
    have "length xs - Suc (k - 1) \<le> length xs - Suc i" using that k by linarith
    moreover have "length xs - Suc i < length xs" using that k by linarith
    ultimately have "sort xs ! (length xs - Suc (k - 1)) \<le> sort xs ! (length xs - Suc i)"
      by (metis length_sort sorted_iff_nth_mono sorted_sort)
    then show ?thesis using that k by (simp add: rev_nth)
  qed
  have "k = length (filter (\<lambda>x. ?d ! (k - 1) \<le> x) (take k ?d))"
  proof -
    have "filter (\<lambda>x. ?d ! (k - 1) \<le> x) (take k ?d) = take k ?d"
      using * k by (auto simp: filter_id_conv in_set_conv_nth)
    then show ?thesis using k by simp
  qed
  also have "\<dots> \<le> length (filter (\<lambda>x. ?d ! (k - 1) \<le> x) ?d)"
    by (metis append_take_drop_id filter_append le_add1 length_append)
  also have "\<dots> = length (filter (\<lambda>x. ?d ! (k - 1) \<le> x) xs)"
    by (metis (no_types, lifting) filter_sort length_rev length_sort rev_filter)
  finally show ?thesis .
qed

end
