(* ===== verification/Algorithms.thy ===== *)
theory Algorithms
  imports Prelude
begin

text \<open>
  The search routines of \<open>pkg/common/src/algorithms/mod.rs\<close>: the \<open>SliceLike\<close> trait with its
  two implementations (one slice, or a pair of slices read as their concatenation, which is
  how a \<open>VecDeque\<close> is searched), and the binary searches \<open>lower_bound_by\<close> and
  \<open>upper_bound_by\<close>. The searches are loops over a shrinking slice; they are shown to terminate
  and to find the first and the last position that satisfies a monotone predicate.
\<close>

section \<open>SliceLike\<close>

datatype 'a slice_like = One "'a list" | Two "'a list" "'a list"

fun slice_len :: "'a slice_like \<Rightarrow> nat" where
  "slice_len (One xs) = length xs"
| "slice_len (Two xs ys) = length xs + length ys"

fun slice_index :: "'a slice_like \<Rightarrow> nat \<Rightarrow> 'a option" where
  "slice_index (One xs) idx = index_vec xs idx"
| "slice_index (Two xs ys) idx =
     (if idx < length xs then index_vec xs idx else index_vec ys (idx - length xs))"

text \<open>Rust's \<open>&xs[i..j]\<close>, which panics unless \<open>i \<le> j \<le> xs.len()\<close>.\<close>

definition range_of :: "'a list \<Rightarrow> nat \<Rightarrow> nat \<Rightarrow> 'a list option" where
  "range_of xs i j = (if i \<le> j \<and> j \<le> length xs then Some (take (j - i) (drop i xs)) else None)"

fun slice_range :: "'a slice_like \<Rightarrow> nat \<Rightarrow> nat \<Rightarrow> 'a slice_like option" where
  "slice_range (One xs) start stop = map_option One (range_of xs start stop)"
| "slice_range (Two xs ys) start stop =
     (let mid = length xs in
      do {
        first \<leftarrow> range_of xs (min start mid) (min stop mid);
        second \<leftarrow> range_of ys (max start mid - mid) (max stop mid - mid);
        Some (Two first second)
      })"

definition slice_from :: "'a slice_like \<Rightarrow> nat \<Rightarrow> 'a slice_like option" where
  "slice_from s start = slice_range s start (slice_len s)"

text \<open>The contents, in order.\<close>

fun slice_list :: "'a slice_like \<Rightarrow> 'a list" where
  "slice_list (One xs) = xs"
| "slice_list (Two xs ys) = xs @ ys"

lemma slice_len_list [simp]: "length (slice_list s) = slice_len s"
  by (cases s) auto

lemma slice_index_list: "slice_index s i = index_vec (slice_list s) i"
  by (cases s) (auto simp: index_vec_def nth_append)

lemma range_of_Some [simp]:
  "range_of xs i j = Some ys \<longleftrightarrow> i \<le> j \<and> j \<le> length xs \<and> ys = take (j - i) (drop i xs)"
  by (auto simp: range_of_def)

lemma slice_range_list:
  assumes "i \<le> j" "j \<le> slice_len s"
  shows "\<exists>t. slice_range s i j = Some t \<and> slice_list t = take (j - i) (drop i (slice_list s))"
proof (cases s)
  case (One xs)
  then show ?thesis using assms by (simp add: range_of_def)
next
  case (Two xs ys)
  show ?thesis using assms
    by (auto simp: Two range_of_def Let_def min_def max_def)
qed

lemma slice_from_list:
  assumes "i \<le> slice_len s"
  shows "\<exists>t. slice_from s i = Some t \<and> slice_list t = drop i (slice_list s)"
  using slice_range_list [of i "slice_len s" s] assms by (simp add: slice_from_def)

section \<open>Binary searches\<close>

text \<open>
  The loops of \<open>lower_bound_by\<close> and \<open>upper_bound_by\<close>: the state is the remaining slice, its
  offset in the searched one and the best position so far. An index or a range outside the
  slice would panic (\<^term>\<open>None\<close>).
\<close>

lemma slice_range_len:
  assumes "slice_range s i j = Some t"
  shows "slice_len t = j - i"
proof -
  have "length (slice_list t) = j - i"
  proof (cases s)
    case (One xs)
    with assms show ?thesis by auto
  next
    case (Two xs ys)
    with assms show ?thesis
      by (auto simp: Let_def bind_eq_Some_conv min_def max_def split: if_splits)
  qed
  then show ?thesis by simp
qed

function upper_bound_loop ::
  "('a \<Rightarrow> 't \<Rightarrow> bool) \<Rightarrow> 't \<Rightarrow> 'a slice_like \<Rightarrow> nat \<Rightarrow> nat option \<Rightarrow> nat option option" where
  "upper_bound_loop le_fn target vals offset best =
     (if slice_len vals = 0 then Some best
      else let mid_idx = slice_len vals div 2 in
        case slice_index vals mid_idx of
          None \<Rightarrow> None
        | Some v \<Rightarrow>
            if le_fn v target then
              (case slice_from vals (mid_idx + 1) of
                 None \<Rightarrow> None
               | Some rest \<Rightarrow>
                   upper_bound_loop le_fn target rest (offset + (mid_idx + 1))
                     (Some (mid_idx + offset)))
            else
              (case slice_range vals 0 mid_idx of
                 None \<Rightarrow> None
               | Some rest \<Rightarrow> upper_bound_loop le_fn target rest offset best))"
  by pat_completeness auto
termination
  by (relation "measure (\<lambda>(_, _, vals, _, _). slice_len vals)")
    (auto simp: slice_from_def dest!: slice_range_len)

function lower_bound_loop ::
  "('a \<Rightarrow> 't \<Rightarrow> bool) \<Rightarrow> 't \<Rightarrow> 'a slice_like \<Rightarrow> nat \<Rightarrow> nat option \<Rightarrow> nat option option" where
  "lower_bound_loop ge_fn target vals offset best =
     (if slice_len vals = 0 then Some best
      else let mid_idx = slice_len vals div 2 in
        case slice_index vals mid_idx of
          None \<Rightarrow> None
        | Some v \<Rightarrow>
            if ge_fn v target then
              (case slice_range vals 0 mid_idx of
                 None \<Rightarrow> None
               | Some rest \<Rightarrow>
                   lower_bound_loop ge_fn target rest offset (Some (mid_idx + offset)))
            else
              (case slice_from vals (mid_idx + 1) of
                 None \<Rightarrow> None
               | Some rest \<Rightarrow>
                   lower_bound_loop ge_fn target rest (offset + (mid_idx + 1)) best))"
  by pat_completeness auto
termination
  by (relation "measure (\<lambda>(_, _, vals, _, _). slice_len vals)")
    (auto simp: slice_from_def dest!: slice_range_len)

declare upper_bound_loop.simps [simp del] lower_bound_loop.simps [simp del]

definition upper_bound_by ::
  "'a slice_like \<Rightarrow> 't \<Rightarrow> ('a \<Rightarrow> 't \<Rightarrow> bool) \<Rightarrow> nat option option" where
  "upper_bound_by vals target le_fn = upper_bound_loop le_fn target vals 0 None"

definition lower_bound_by ::
  "'a slice_like \<Rightarrow> 't \<Rightarrow> ('a \<Rightarrow> 't \<Rightarrow> bool) \<Rightarrow> nat option option" where
  "lower_bound_by vals target ge_fn = lower_bound_loop ge_fn target vals 0 None"

definition upper_bound :: "'a::linorder list \<Rightarrow> 'a \<Rightarrow> nat option option" where
  "upper_bound vals target = upper_bound_by (One vals) target (\<lambda>a b. a \<le> b)"

definition lower_bound :: "'a::linorder list \<Rightarrow> 'a \<Rightarrow> nat option option" where
  "lower_bound vals target = lower_bound_by (One vals) target (\<lambda>a b. b \<le> a)"

text \<open>
  What the loops compute, on a list whose elements satisfy the predicate on a prefix
  (\<open>upper\<close>) or on a suffix (\<open>lower\<close>).
\<close>

definition prefix_closed :: "('a \<Rightarrow> bool) \<Rightarrow> 'a list \<Rightarrow> bool" where
  "prefix_closed P xs \<longleftrightarrow> (\<forall>i j. i \<le> j \<longrightarrow> j < length xs \<longrightarrow> P (xs ! j) \<longrightarrow> P (xs ! i))"

definition last_sat :: "('a \<Rightarrow> bool) \<Rightarrow> 'a list \<Rightarrow> nat option" where
  "last_sat P xs = (let k = length (takeWhile P xs) in if k = 0 then None else Some (k - 1))"

definition first_sat :: "('a \<Rightarrow> bool) \<Rightarrow> 'a list \<Rightarrow> nat option" where
  "first_sat P xs = (let k = length (takeWhile (\<lambda>x. \<not> P x) xs) in
     if k = length xs then None else Some k)"


lemma prefix_closedD: "prefix_closed P xs \<Longrightarrow> i \<le> j \<Longrightarrow> j < length xs \<Longrightarrow> P (xs ! j) \<Longrightarrow> P (xs ! i)"
  by (simp add: prefix_closed_def)

lemma prefix_closed_take: "prefix_closed P xs \<Longrightarrow> prefix_closed P (take n xs)"
  by (auto simp: prefix_closed_def)

lemma prefix_closed_drop:
  assumes "prefix_closed P xs"
  shows "prefix_closed P (drop n xs)"
  unfolding prefix_closed_def
proof (intro allI impI)
  fix i j
  assume "i \<le> j" "j < length (drop n xs)" "P (drop n xs ! j)"
  then have "P (xs ! (n + j))" "n + j < length xs" by auto
  then have "P (xs ! (n + i))"
    using prefix_closedD [OF assms, of "n + i" "n + j"] \<open>i \<le> j\<close> by simp
  then show "P (drop n xs ! i)" using \<open>i \<le> j\<close> \<open>n + j < length xs\<close> by simp
qed

lemma takeWhile_closed_split:
  assumes "prefix_closed P xs" "k < length xs" "P (xs ! k)"
  shows "takeWhile P xs = take (k + 1) xs @ takeWhile P (drop (k + 1) xs)"
proof -
  have "\<forall>x \<in> set (take (k + 1) xs). P x"
    using assms prefix_closedD [OF assms(1), of _ k] by (auto simp: in_set_conv_nth less_Suc_eq_le)
  then have "takeWhile P (take (k + 1) xs @ drop (k + 1) xs) =
      take (k + 1) xs @ takeWhile P (drop (k + 1) xs)"
    by (subst takeWhile_append2) auto
  then show ?thesis by (simp only: append_take_drop_id)
qed

lemma takeWhile_cut:
  assumes "k < length xs" "\<not> P (xs ! k)"
  shows "takeWhile P xs = takeWhile P (take k xs)"
proof -
  have "takeWhile P (take k xs @ xs ! k # drop (Suc k) xs) = takeWhile P (take k xs)"
    using assms(2) by (metis takeWhile_append takeWhile.simps(2) append_Nil2 takeWhile_eq_all_conv)
  then show ?thesis using assms(1) by (simp only: id_take_nth_drop [symmetric])
qed

lemma last_sat_go_right:
  assumes "prefix_closed P xs" "k < length xs" "P (xs ! k)"
  shows "last_sat P xs = (case last_sat P (drop (k + 1) xs) of None \<Rightarrow> Some k | Some j \<Rightarrow> Some (k + 1 + j))"
  using assms by (simp add: last_sat_def Let_def takeWhile_closed_split [OF assms])

lemma last_sat_go_left:
  assumes "k < length xs" "\<not> P (xs ! k)"
  shows "last_sat P xs = last_sat P (take k xs)"
  using takeWhile_cut [of k xs P] assms by (simp add: last_sat_def)

lemma first_sat_go_left:
  assumes "prefix_closed (\<lambda>x. \<not> P x) xs" "k < length xs" "P (xs ! k)"
  shows "first_sat P xs = (case first_sat P (take k xs) of None \<Rightarrow> Some k | Some j \<Rightarrow> Some j)"
proof -
  let ?tw = "takeWhile (\<lambda>x. \<not> P x) (take k xs)"
  have tw: "takeWhile (\<lambda>x. \<not> P x) xs = ?tw" using assms by (intro takeWhile_cut) auto
  have "length ?tw \<le> k" using length_takeWhile_le [of "\<lambda>x. \<not> P x" "take k xs"] assms by simp
  then show ?thesis using assms(2) by (auto simp: first_sat_def Let_def tw)
qed

lemma first_sat_go_right:
  assumes "prefix_closed (\<lambda>x. \<not> P x) xs" "k < length xs" "\<not> P (xs ! k)"
  shows "first_sat P xs = map_option (\<lambda>j. k + 1 + j) (first_sat P (drop (k + 1) xs))"
  using assms by (auto simp: first_sat_def Let_def takeWhile_closed_split [OF assms])

lemma upper_bound_loop_last_sat:
  "prefix_closed (\<lambda>v. le_fn v target) (slice_list vals) \<Longrightarrow>
   upper_bound_loop le_fn target vals offset best =
     Some (case last_sat (\<lambda>v. le_fn v target) (slice_list vals) of
             None \<Rightarrow> best | Some k \<Rightarrow> Some (offset + k))"
proof (induction le_fn target vals offset best rule: upper_bound_loop.induct)
  case (1 le_fn target vals offset best)
  let ?P = "\<lambda>v. le_fn v target"
  let ?xs = "slice_list vals"
  let ?mid = "slice_len vals div 2"
  show ?case
  proof (cases "slice_len vals = 0")
    case True
    then have "?xs = []" by (metis slice_len_list length_0_conv)
    then show ?thesis using True by (simp add: upper_bound_loop.simps [of le_fn] last_sat_def)
  next
    case False
    then have mid: "?mid < length ?xs" by simp
    then have idx: "slice_index vals ?mid = Some (?xs ! ?mid)"
      by (simp add: slice_index_list)
    show ?thesis
    proof (cases "?P (?xs ! ?mid)")
      case True
      obtain rest where rest: "slice_from vals (?mid + 1) = Some rest"
        "slice_list rest = drop (?mid + 1) ?xs"
        using slice_from_list [of "?mid + 1" vals] mid by auto
      have "upper_bound_loop le_fn target rest (offset + (?mid + 1)) (Some (?mid + offset)) =
          Some (case last_sat ?P (drop (?mid + 1) ?xs) of
             None \<Rightarrow> Some (?mid + offset) | Some k \<Rightarrow> Some (offset + (?mid + 1) + k))"
        using "1.IH"(1) [OF False refl idx True rest(1)] rest(2) prefix_closed_drop [OF "1.prems"]
        by simp
      then show ?thesis
        using False True idx rest(1) last_sat_go_right [OF "1.prems" mid] mid
        by (simp add: upper_bound_loop.simps [of le_fn target vals] Let_def split: option.splits)
    next
      case nP: False
      obtain rest where rest: "slice_range vals 0 ?mid = Some rest"
        "slice_list rest = take ?mid ?xs"
        using slice_range_list [of 0 ?mid vals] mid by auto
      have "upper_bound_loop le_fn target rest offset best =
          Some (case last_sat ?P (take ?mid ?xs) of None \<Rightarrow> best | Some k \<Rightarrow> Some (offset + k))"
        using "1.IH"(2) [OF False refl idx nP rest(1)] rest(2) prefix_closed_take [OF "1.prems"]
        by simp
      then show ?thesis
        using False nP idx rest(1) last_sat_go_left [OF mid, of ?P]
        by (simp add: upper_bound_loop.simps [of le_fn target vals] Let_def)
    qed
  qed
qed

lemma lower_bound_loop_first_sat:
  "prefix_closed (\<lambda>v. \<not> ge_fn v target) (slice_list vals) \<Longrightarrow>
   lower_bound_loop ge_fn target vals offset best =
     Some (case first_sat (\<lambda>v. ge_fn v target) (slice_list vals) of
             None \<Rightarrow> best | Some k \<Rightarrow> Some (offset + k))"
proof (induction ge_fn target vals offset best rule: lower_bound_loop.induct)
  case (1 ge_fn target vals offset best)
  let ?P = "\<lambda>v. ge_fn v target"
  let ?xs = "slice_list vals"
  let ?mid = "slice_len vals div 2"
  show ?case
  proof (cases "slice_len vals = 0")
    case True
    then have "?xs = []" by (metis slice_len_list length_0_conv)
    then show ?thesis using True by (simp add: lower_bound_loop.simps [of ge_fn] first_sat_def)
  next
    case False
    then have mid: "?mid < length ?xs" by simp
    then have idx: "slice_index vals ?mid = Some (?xs ! ?mid)"
      by (simp add: slice_index_list)
    show ?thesis
    proof (cases "?P (?xs ! ?mid)")
      case True
      obtain rest where rest: "slice_range vals 0 ?mid = Some rest"
        "slice_list rest = take ?mid ?xs"
        using slice_range_list [of 0 ?mid vals] mid by auto
      have "lower_bound_loop ge_fn target rest offset (Some (?mid + offset)) =
          Some (case first_sat ?P (take ?mid ?xs) of
             None \<Rightarrow> Some (?mid + offset) | Some k \<Rightarrow> Some (offset + k))"
        using "1.IH"(1) [OF False refl idx True rest(1)] rest(2) prefix_closed_take [OF "1.prems"]
        by simp
      then show ?thesis
        using False True idx rest(1) first_sat_go_left [OF "1.prems" mid] mid
        by (simp add: lower_bound_loop.simps [of ge_fn target vals] Let_def split: option.splits)
    next
      case nP: False
      obtain rest where rest: "slice_from vals (?mid + 1) = Some rest"
        "slice_list rest = drop (?mid + 1) ?xs"
        using slice_from_list [of "?mid + 1" vals] mid by auto
      have "lower_bound_loop ge_fn target rest (offset + (?mid + 1)) best =
          Some (case first_sat ?P (drop (?mid + 1) ?xs) of
             None \<Rightarrow> best | Some k \<Rightarrow> Some (offset + (?mid + 1) + k))"
        using "1.IH"(2) [OF False refl idx nP rest(1)] rest(2) prefix_closed_drop [OF "1.prems"]
        by simp
      then show ?thesis
        using False nP idx rest(1) first_sat_go_right [OF "1.prems" mid]
        by (simp add: lower_bound_loop.simps [of ge_fn target vals] Let_def split: option.splits)
    qed
  qed
qed

lemma upper_bound_by_eq:
  "prefix_closed (\<lambda>v. le_fn v target) (slice_list vals) \<Longrightarrow>
   upper_bound_by vals target le_fn = Some (last_sat (\<lambda>v. le_fn v target) (slice_list vals))"
  by (simp add: upper_bound_by_def upper_bound_loop_last_sat split: option.splits)

lemma lower_bound_by_eq:
  "prefix_closed (\<lambda>v. \<not> ge_fn v target) (slice_list vals) \<Longrightarrow>
   lower_bound_by vals target ge_fn = Some (first_sat (\<lambda>v. ge_fn v target) (slice_list vals))"
  by (simp add: lower_bound_by_def lower_bound_loop_first_sat split: option.splits)

text \<open>The two positions, characterised.\<close>

lemma last_sat_Some:
  assumes "prefix_closed P xs"
  shows "last_sat P xs = Some k \<longleftrightarrow>
    k < length xs \<and> P (xs ! k) \<and> (\<forall>j. k < j \<longrightarrow> j < length xs \<longrightarrow> \<not> P (xs ! j))"
proof
  assume "last_sat P xs = Some k"
  then have k: "length (takeWhile P xs) = Suc k"
    by (auto simp: last_sat_def Let_def split: if_splits)
  have "k < length xs" using k length_takeWhile_le [of P xs] by simp
  moreover have "P (xs ! k)" using k by (metis lessI nth_mem set_takeWhileD takeWhile_nth)
  moreover have "\<not> P (xs ! j)" if "k < j" "j < length xs" for j
  proof -
    have "Suc k < length xs" using that by simp
    then have "\<not> P (xs ! Suc k)" using k by (metis nth_length_takeWhile)
    then show ?thesis using prefix_closedD [OF assms, of "Suc k" j] that by auto
  qed
  ultimately show "k < length xs \<and> P (xs ! k) \<and> (\<forall>j. k < j \<longrightarrow> j < length xs \<longrightarrow> \<not> P (xs ! j))"
    by blast
next
  assume *: "k < length xs \<and> P (xs ! k) \<and> (\<forall>j. k < j \<longrightarrow> j < length xs \<longrightarrow> \<not> P (xs ! j))"
  have "takeWhile P (drop (k + 1) xs) = []"
  proof (cases "k + 1 < length xs")
    case True
    then have "drop (k + 1) xs = xs ! (k + 1) # drop (k + 2) xs"
      by (simp add: Cons_nth_drop_Suc)
    then show ?thesis using * True by simp
  qed simp
  then show "last_sat P xs = Some k"
    using * last_sat_go_right [OF assms, of k] by (simp add: last_sat_def)
qed

lemma last_sat_None: "last_sat P xs = None \<longleftrightarrow> xs = [] \<or> \<not> P (hd xs)"
  by (cases xs) (auto simp: last_sat_def Let_def)

lemma first_sat_Some:
  "first_sat P xs = Some k \<longleftrightarrow> k < length xs \<and> P (xs ! k) \<and> (\<forall>j<k. \<not> P (xs ! j))"
proof (induction xs arbitrary: k)
  case Nil
  show ?case by (simp add: first_sat_def)
next
  case (Cons x xs)
  have step: "first_sat P (x # xs) = (if P x then Some 0 else map_option Suc (first_sat P xs))"
    by (simp add: first_sat_def Let_def)
  show ?case
  proof (cases k)
    case 0
    then show ?thesis by (auto simp: step)
  next
    case (Suc m)
    then show ?thesis using Cons.IH [of m] by (auto simp: step less_Suc_eq_0_disj)
  qed
qed

lemma first_sat_None: "first_sat P xs = None \<longleftrightarrow> (\<forall>x \<in> set xs. \<not> P x)"
  by (induction xs) (auto simp: first_sat_def Let_def)

lemma sorted_prefix_closed_le: "sorted xs \<Longrightarrow> prefix_closed (\<lambda>v. v \<le> t) xs"
  by (auto simp: prefix_closed_def sorted_iff_nth_mono intro: order_trans)

lemma sorted_prefix_closed_lt: "sorted xs \<Longrightarrow> prefix_closed (\<lambda>v. \<not> t \<le> v) xs"
  by (auto simp: prefix_closed_def sorted_iff_nth_mono dest: order_trans)

text \<open>The last position as an element: the first hit from the right.\<close>

lemma last_sat_find:
  "prefix_closed P xs \<Longrightarrow> map_option (\<lambda>k. xs ! k) (last_sat P xs) = find P (rev xs)"
proof (induction xs rule: rev_induct)
  case Nil
  show ?case by (simp add: last_sat_def)
next
  case (snoc x xs)
  have pc: "prefix_closed P xs" using prefix_closed_take [OF snoc.prems, of "length xs"] by simp
  show ?case
  proof (cases "P x")
    case True
    then have "last_sat P (xs @ [x]) = Some (length xs)"
      by (auto simp: last_sat_Some [OF snoc.prems])
    then show ?thesis using True by simp
  next
    case False
    then have eq: "last_sat P (xs @ [x]) = last_sat P xs"
      using last_sat_go_left [of "length xs" "xs @ [x]" P] by simp
    have "k < length xs" if "last_sat P xs = Some k" for k
      using that last_sat_Some [OF pc] by simp
    then have "map_option (\<lambda>k. (xs @ [x]) ! k) (last_sat P xs) = map_option (\<lambda>k. xs ! k) (last_sat P xs)"
      by (cases "last_sat P xs") (auto simp: nth_append)
    then show ?thesis using False snoc.IH [OF pc] by (simp add: eq)
  qed
qed

lemma find_SomeD: "find P xs = Some x \<Longrightarrow> x \<in> set xs \<and> P x"
  by (induction xs) (auto split: if_splits)

lemma find_append: "find P (xs @ ys) = (case find P xs of None \<Rightarrow> find P ys | Some x \<Rightarrow> Some x)"
  by (induction xs) auto

lemma find_rev_take:
  assumes "\<forall>x \<in> set (drop n xs). \<not> P x"
  shows "find P (rev (take n xs)) = find P (rev xs)"
proof -
  have "find P (rev (drop n xs)) = None" using assms by (simp add: find_None_iff)
  then have "find P (rev (take n xs @ drop n xs)) = find P (rev (take n xs))"
    by (simp only: rev_append find_append option.case)
  then show ?thesis by simp
qed

lemma find_rev_drop:
  assumes "n < length xs" "P (xs ! n)"
  shows "find P (rev (drop n xs)) = find P (rev xs)"
proof -
  have "find P (rev (drop n xs)) \<noteq> None"
    using assms by (auto simp: find_None_iff) (metis Cons_nth_drop_Suc list.set_intros(1))
  moreover have "find P (rev (take n xs @ drop n xs)) =
      (case find P (rev (drop n xs)) of None \<Rightarrow> find P (rev (take n xs)) | Some x \<Rightarrow> Some x)"
    by (simp only: rev_append find_append)
  ultimately show ?thesis by (auto split: option.splits)
qed

lemma find_upto_Some:
  "find P [0..<n] = Some k \<longleftrightarrow> k < n \<and> P k \<and> (\<forall>j<k. \<not> P j)"
  by (auto simp: find_Some_iff)

lemma find_rev_upto_Some:
  "find P (rev [0..<n]) = Some k \<longleftrightarrow> k < n \<and> P k \<and> (\<forall>j. k < j \<longrightarrow> j < n \<longrightarrow> \<not> P j)"
  by (induction n) (auto simp: less_Suc_eq)

lemma option_eqI: "(\<And>k. a = Some k \<longleftrightarrow> b = Some k) \<Longrightarrow> a = b"
  by (cases a; cases b) auto

lemma last_sat_scan: "prefix_closed P xs \<Longrightarrow> last_sat P xs = find (\<lambda>i. P (xs ! i)) (rev [0..<length xs])"
  by (rule option_eqI) (simp add: last_sat_Some find_rev_upto_Some)

lemma first_sat_scan: "first_sat P xs = find (\<lambda>i. P (xs ! i)) [0..<length xs]"
  by (rule option_eqI) (simp add: first_sat_Some find_upto_Some)

text \<open>
  C23: The binary searches compute what a linear scan computes. On a sorted vector \<open>upper_bound\<close>
  gives the last position whose element is at most the target and \<open>lower_bound\<close> the first
  position whose element is at least the target; both end without an index out of range.
\<close>

theorem searches_are_linear:
  assumes "sorted xs"
  shows "upper_bound xs t = Some (find (\<lambda>i. xs ! i \<le> t) (rev [0..<length xs]))
       \<and> lower_bound xs t = Some (find (\<lambda>i. t \<le> xs ! i) [0..<length xs])"
  unfolding upper_bound_def lower_bound_def
  using upper_bound_by_eq [of "\<lambda>a b. a \<le> b" t "One xs"] lower_bound_by_eq [of "\<lambda>a b. b \<le> a" t "One xs"]
    sorted_prefix_closed_le [OF assms, of t] sorted_prefix_closed_lt [OF assms, of t]
  by (simp add: last_sat_scan first_sat_scan)

theorem searches_are_linear_witness:
  "upper_bound [1, 3, 3, 7 :: nat] 3 = Some (Some 2) \<and> lower_bound [1, 3, 3, 7 :: nat] 3 = Some (Some 1)"
  using searches_are_linear [of "[1, 3, 3, 7 :: nat]" 3] by (simp add: upt_rec)

end
