(* ===== verification/Raft_Proto.thy ===== *)
theory Raft_Proto
  imports Prelude
begin

text \<open>
  The messages and identifiers of \<open>pkg/raft/proto\<close> and the operations that
  \<open>pkg/raft/proto/lib.rs\<close> adds to them. The typed numbers of \<open>ident.proto\<close> are natural
  numbers; an optional proto3 field reads as its default, so an unset \<open>voted_for\<close> or
  \<open>leader_approval\<close> is 0. A \<open>oneof\<close> is a datatype with a constructor for the unset case.
\<close>

section \<open>Identifiers and log positions\<close>

type_synonym server_id = nat
type_synonym raft_term = nat
type_synonym log_index = nat
type_synonym request_id = nat

record log_position =
  pos_term :: raft_term
  pos_index :: log_index

definition new_position :: "raft_term \<Rightarrow> log_index \<Rightarrow> log_position" where
  "new_position t i = \<lparr>pos_term = t, pos_index = i\<rparr>"

definition zero_position :: log_position where
  "zero_position = \<lparr>pos_term = 0, pos_index = 0\<rparr>"

lemma new_position_sel [simp]:
  "pos_term (new_position t i) = t" "pos_index (new_position t i) = i"
  by (simp_all add: new_position_def)

lemma zero_position_sel [simp]: "pos_term zero_position = 0" "pos_index zero_position = 0"
  by (simp_all add: zero_position_def)

section \<open>Log entries\<close>

datatype config_change =
    AddMember server_id
  | AddLearner server_id
  | RemoveServer server_id
  | AddAspiring server_id
  | ConfigChange_NOT_SET

datatype log_entry_data =
    Noop bool
  | Config config_change
  | Command "8 word list"
  | LogEntryData_NOT_SET

record log_entry =
  le_pos :: log_position
  le_data :: log_entry_data

section \<open>Configuration\<close>

datatype conf_role = UNKNOWN | LEARNER | ASPIRING | MEMBER

record conf_server =
  srv_id :: server_id
  srv_role :: conf_role

record configuration =
  servers :: "conf_server list"

record configuration_snapshot =
  snap_last_applied :: log_index
  snap_data :: configuration

fun server_in :: "conf_server list \<Rightarrow> server_id \<Rightarrow> conf_server option" where
  "server_in [] sid = None"
| "server_in (s # ss) sid = (if srv_id s = sid then Some s else server_in ss sid)"

definition server_of :: "configuration \<Rightarrow> server_id \<Rightarrow> conf_server option" where
  "server_of cfg sid = server_in (servers cfg) sid"

definition server_role :: "configuration \<Rightarrow> server_id \<Rightarrow> conf_role" where
  "server_role cfg sid = (case server_of cfg sid of None \<Rightarrow> UNKNOWN | Some s \<Rightarrow> srv_role s)"

text \<open>
  \<open>server_mut\<close> hands out a mutable reference to the first server with the given id, which it
  first appends with the default role when there is none. Its model takes what the caller
  does with the reference as a function.
\<close>

fun modify_first :: "server_id \<Rightarrow> (conf_server \<Rightarrow> conf_server) \<Rightarrow> conf_server list \<Rightarrow> conf_server list" where
  "modify_first sid f [] = []"
| "modify_first sid f (s # ss) = (if srv_id s = sid then f s # ss else s # modify_first sid f ss)"

definition server_mut :: "configuration \<Rightarrow> server_id \<Rightarrow> (conf_server \<Rightarrow> conf_server) \<Rightarrow> configuration" where
  "server_mut cfg sid f =
     (let ss = (if server_in (servers cfg) sid = None
                then servers cfg @ [\<lparr>srv_id = sid, srv_role = UNKNOWN\<rparr>] else servers cfg)
      in cfg\<lparr>servers := modify_first sid f ss\<rparr>)"

fun remove_first :: "server_id \<Rightarrow> conf_server list \<Rightarrow> conf_server list" where
  "remove_first sid [] = []"
| "remove_first sid (s # ss) = (if srv_id s = sid then ss else s # remove_first sid ss)"

definition aspire :: "conf_server \<Rightarrow> conf_server" where
  "aspire s = (case srv_role s of
      UNKNOWN \<Rightarrow> s\<lparr>srv_role := ASPIRING\<rparr>
    | ASPIRING \<Rightarrow> s\<lparr>srv_role := ASPIRING\<rparr>
    | LEARNER \<Rightarrow> s\<lparr>srv_role := ASPIRING\<rparr>
    | MEMBER \<Rightarrow> s)"

fun apply_change :: "configuration \<Rightarrow> config_change \<Rightarrow> configuration" where
  "apply_change cfg (AddLearner s) = server_mut cfg s (\<lambda>v. v\<lparr>srv_role := LEARNER\<rparr>)"
| "apply_change cfg (AddMember s) = server_mut cfg s (\<lambda>v. v\<lparr>srv_role := MEMBER\<rparr>)"
| "apply_change cfg (AddAspiring s) = server_mut cfg s aspire"
| "apply_change cfg (RemoveServer s) = cfg\<lparr>servers := remove_first s (servers cfg)\<rparr>"
| "apply_change cfg ConfigChange_NOT_SET = cfg"

section \<open>Metadata and RPC messages\<close>

record metadata =
  current_term :: raft_term
  voted_for :: server_id
  commit_index :: log_index

record request_vote_request =
  rvq_term :: raft_term
  rvq_candidate_id :: server_id
  rvq_last_log_index :: log_index
  rvq_last_log_term :: raft_term
  rvq_leader_approval :: raft_term

record request_vote_response =
  rvr_term :: raft_term
  rvr_vote_granted :: bool
  rvr_last_config_hint :: "configuration_snapshot option"

record heartbeat_request =
  hbq_term :: raft_term
  hbq_leader_id :: server_id

record heartbeat_response =
  hbr_term :: raft_term

record append_entries_request =
  aeq_term :: raft_term
  aeq_leader_id :: server_id
  aeq_prev_log_index :: log_index
  aeq_prev_log_term :: raft_term
  aeq_entries :: "log_entry list"
  aeq_leader_commit :: log_index
  aeq_timeout_now :: bool

record append_entries_response =
  aer_term :: raft_term
  aer_success :: bool
  aer_last_log_index :: log_index

record install_snapshot_request =
  isq_term :: raft_term
  isq_leader_id :: server_id
  isq_last_applied :: log_position
  isq_last_config :: configuration_snapshot

record install_snapshot_response =
  isr_term :: raft_term

record leader_hint_msg =
  lh_term :: raft_term
  lh_leader_id :: "server_id option"

section \<open>Well-formed configurations\<close>

definition conf_ids :: "configuration \<Rightarrow> server_id list" where
  "conf_ids cfg = map srv_id (servers cfg)"

definition conf_wf :: "configuration \<Rightarrow> bool" where
  "conf_wf cfg \<longleftrightarrow> distinct (conf_ids cfg)"

definition voters :: "configuration \<Rightarrow> server_id set" where
  "voters cfg = {srv_id s | s. s \<in> set (servers cfg) \<and> srv_role s = MEMBER}"

lemma voters_code [code]: "voters cfg = set (map srv_id (filter (\<lambda>s. srv_role s = MEMBER) (servers cfg)))"
  by (auto simp: voters_def)

lemma server_in_None: "server_in ss sid = None \<longleftrightarrow> sid \<notin> srv_id ` set ss"
  by (induction ss) auto

lemma server_in_Some: "server_in ss sid = Some s \<Longrightarrow> s \<in> set ss \<and> srv_id s = sid"
  by (induction ss) (auto split: if_splits)

lemma server_in_distinct:
  "distinct (map srv_id ss) \<Longrightarrow> s \<in> set ss \<Longrightarrow> server_in ss (srv_id s) = Some s"
  by (induction ss) (auto simp: image_iff)

lemma server_in_append:
  "server_in (xs @ ys) sid = (case server_in xs sid of None \<Rightarrow> server_in ys sid | Some s \<Rightarrow> Some s)"
  by (induction xs) auto

lemma map_srv_id_modify_first:
  "(\<And>s. srv_id (f s) = srv_id s) \<Longrightarrow> map srv_id (modify_first sid f ss) = map srv_id ss"
  by (induction ss) auto

lemma server_in_modify_first:
  "(\<And>s. srv_id (f s) = srv_id s) \<Longrightarrow>
   server_in (modify_first sid f ss) k = (if k = sid then map_option f (server_in ss k) else server_in ss k)"
  by (induction ss) auto

lemma set_remove_first_subset: "set (remove_first sid ss) \<subseteq> set ss"
  by (induction ss) auto

lemma distinct_remove_first:
  "distinct (map srv_id ss) \<Longrightarrow> distinct (map srv_id (remove_first sid ss))"
  by (induction ss) (auto dest: subsetD [OF set_remove_first_subset])

lemma server_in_remove_first:
  "distinct (map srv_id ss) \<Longrightarrow>
   server_in (remove_first sid ss) k = (if k = sid then None else server_in ss k)"
  by (induction ss) (auto simp: server_in_None image_iff)

lemma aspire_id [simp]: "srv_id (aspire s) = srv_id s"
  by (simp add: aspire_def split: conf_role.splits)

lemma server_of_server_mut:
  assumes "\<And>s. srv_id (f s) = srv_id s"
  shows "server_of (server_mut cfg sid f) k =
    (if k = sid
     then Some (f (case server_of cfg sid of None \<Rightarrow> \<lparr>srv_id = sid, srv_role = UNKNOWN\<rparr> | Some s \<Rightarrow> s))
     else server_of cfg k)"
  by (auto simp: server_of_def server_mut_def Let_def server_in_modify_first [OF assms]
      server_in_append split: option.splits)

lemma conf_wf_server_mut:
  assumes "\<And>s. srv_id (f s) = srv_id s" "conf_wf cfg"
  shows "conf_wf (server_mut cfg sid f)"
  using assms(2)
  by (auto simp: conf_wf_def conf_ids_def server_mut_def Let_def map_srv_id_modify_first [OF assms(1)]
      server_in_None image_iff)

lemma conf_wf_remove [inv_intros]:
  "conf_wf cfg \<Longrightarrow> conf_wf (cfg\<lparr>servers := remove_first s (servers cfg)\<rparr>)"
  by (simp add: conf_wf_def conf_ids_def distinct_remove_first)

lemma conf_wf_apply_change [inv_intros]: "conf_wf cfg \<Longrightarrow> conf_wf (apply_change cfg ch)"
  by (cases ch) (auto intro!: conf_wf_server_mut conf_wf_remove)

lemma server_role_apply_change:
  assumes "conf_wf cfg"
  shows "server_role (apply_change cfg ch) k =
    (case ch of
       AddMember s \<Rightarrow> if k = s then MEMBER else server_role cfg k
     | AddLearner s \<Rightarrow> if k = s then LEARNER else server_role cfg k
     | AddAspiring s \<Rightarrow> if k = s \<and> server_role cfg k \<noteq> MEMBER then ASPIRING else server_role cfg k
     | RemoveServer s \<Rightarrow> if k = s then UNKNOWN else server_role cfg k
     | ConfigChange_NOT_SET \<Rightarrow> server_role cfg k)"
proof (cases ch)
  case (RemoveServer s)
  then show ?thesis using assms
    by (simp add: server_role_def server_of_def server_in_remove_first conf_wf_def conf_ids_def)
next
  case (AddAspiring s)
  then show ?thesis
    by (auto simp: server_role_def server_of_server_mut aspire_def split: option.splits conf_role.splits)
qed (simp_all add: server_role_def server_of_server_mut)

lemma voters_role: "conf_wf cfg \<Longrightarrow> sid \<in> voters cfg \<longleftrightarrow> server_role cfg sid = MEMBER"
  by (auto simp: voters_def server_role_def server_of_def conf_wf_def conf_ids_def
      server_in_distinct dest: server_in_Some split: option.splits)

lemma finite_voters [simp]: "finite (voters cfg)"
  by (simp add: voters_def)

end
