(* ===== verification/Quorum.thy ===== *)
theory Quorum
  imports Raft_Proto
begin

text \<open>
  Majorities of the voting members (\<open>ConsensusModule::majority_size\<close> in
  \<open>pkg/raft/src/consensus/module.rs\<close>) and why they are quorums: two majorities of one
  configuration, and two majorities of configurations that one configuration change apart,
  always share a server.
\<close>

definition num_voters :: "configuration \<Rightarrow> nat" where
  "num_voters cfg = length (filter (\<lambda>s. srv_role s = MEMBER) (servers cfg))"

definition majority_size :: "configuration \<Rightarrow> nat" where
  "majority_size cfg = (if num_voters cfg = 0 then 2 ^ 64 - 1 else num_voters cfg div 2 + 1)"

definition is_quorum :: "configuration \<Rightarrow> server_id set \<Rightarrow> bool" where
  "is_quorum cfg Q \<longleftrightarrow> conf_wf cfg \<and> Q \<subseteq> voters cfg \<and> majority_size cfg \<le> card Q"

text \<open>
  Two families of sets that always meet. What a server decides once cannot then be decided
  differently by a set of the one family and a set of the other.
\<close>

locale meeting_quorums =
  fixes Qa Qb :: "'a set \<Rightarrow> bool"
  assumes meet: "Qa A \<Longrightarrow> Qb B \<Longrightarrow> A \<inter> B \<noteq> {}"
begin

lemma common_member: "Qa A \<Longrightarrow> Qb B \<Longrightarrow> \<exists>p. p \<in> A \<and> p \<in> B"
  using meet by blast

lemma same_decision:
  assumes "Qa A" "Qb B" "\<And>p. p \<in> A \<Longrightarrow> vote p = x" "\<And>p. p \<in> B \<Longrightarrow> vote p = y"
  shows "x = y"
  using common_member [OF assms(1,2)] assms(3,4) by auto

end

lemma num_voters_card: "conf_wf cfg \<Longrightarrow> num_voters cfg = card (voters cfg)"
proof -
  assume wf: "conf_wf cfg"
  let ?ms = "filter (\<lambda>s. srv_role s = MEMBER) (servers cfg)"
  have "voters cfg = set (map srv_id ?ms)" by (auto simp: voters_def)
  moreover have "distinct (map srv_id ?ms)"
    using wf by (simp add: conf_wf_def conf_ids_def distinct_map_filter)
  ultimately show ?thesis by (metis distinct_card length_map num_voters_def)
qed

lemma majority_size_pos: "0 < majority_size cfg"
  by (simp add: majority_size_def)

lemma quorum_card:
  assumes "is_quorum cfg Q"
  shows "card (voters cfg) < 2 * card Q" "Q \<subseteq> voters cfg" "finite Q"
proof -
  from assms show Q: "Q \<subseteq> voters cfg" by (simp add: is_quorum_def)
  then show "finite Q" by (rule finite_subset) simp
  have n: "num_voters cfg = card (voters cfg)" using assms num_voters_card is_quorum_def by blast
  have "card Q \<le> card (voters cfg)" using Q by (simp add: card_mono)
  moreover have "majority_size cfg \<le> card Q" using assms by (simp add: is_quorum_def)
  ultimately show "card (voters cfg) < 2 * card Q"
    by (auto simp: majority_size_def n split: if_splits)
qed

lemma overlap_by_card:
  assumes "A \<subseteq> V" "B \<subseteq> V" "finite V" "card V < card A + card B"
  shows "A \<inter> B \<noteq> {}"
proof
  assume "A \<inter> B = {}"
  moreover have "finite A" "finite B" using assms finite_subset by blast+
  ultimately have "card A + card B = card (A \<union> B)" by (simp add: card_Un_disjoint)
  also have "\<dots> \<le> card V" using assms by (intro card_mono) auto
  finally show False using assms(4) by simp
qed

interpretation same_conf: meeting_quorums "is_quorum cfg" "is_quorum cfg" for cfg
proof
  fix A B
  assume "is_quorum cfg A" "is_quorum cfg B"
  then show "A \<inter> B \<noteq> {}"
    using quorum_card(1) [of cfg A] quorum_card(1) [of cfg B] quorum_card(2)
    by (intro overlap_by_card [of _ "voters cfg"]) auto
qed

lemma voters_apply_change:
  assumes "conf_wf cfg"
  shows "voters (apply_change cfg ch) \<in>
    {voters cfg} \<union> (\<Union>s. {insert s (voters cfg), voters cfg - {s}})"
proof -
  let ?W = "voters (apply_change cfg ch)"
  have W: "sid \<in> voters (apply_change cfg c) \<longleftrightarrow> server_role (apply_change cfg c) sid = MEMBER" for sid c
    using assms by (simp add: voters_role conf_wf_apply_change)
  have V: "sid \<in> voters cfg \<longleftrightarrow> server_role cfg sid = MEMBER" for sid
    using assms by (simp add: voters_role)
  show ?thesis
  proof (cases ch)
    case (AddMember s)
    then have "?W = insert s (voters cfg)"
      by (auto simp: W V server_role_apply_change [OF assms]
          simp del: apply_change.simps split: if_splits)
    then show ?thesis by blast
  next
    case (AddLearner s)
    then have "?W = voters cfg - {s}"
      by (auto simp: W V server_role_apply_change [OF assms]
          simp del: apply_change.simps split: if_splits)
    then show ?thesis by blast
  next
    case (RemoveServer s)
    then have "?W = voters cfg - {s}"
      by (auto simp: W V server_role_apply_change [OF assms]
          simp del: apply_change.simps split: if_splits)
    then show ?thesis by blast
  next
    case (AddAspiring s)
    then have "?W = voters cfg"
      by (auto simp: W V server_role_apply_change [OF assms]
          simp del: apply_change.simps split: if_splits)
    then show ?thesis by blast
  next
    case ConfigChange_NOT_SET
    then show ?thesis by simp
  qed
qed

interpretation next_conf: meeting_quorums "is_quorum cfg" "is_quorum (apply_change cfg ch)" for cfg ch
proof
  fix A B
  assume A: "is_quorum cfg A" and B: "is_quorum (apply_change cfg ch) B"
  let ?V = "voters cfg" and ?W = "voters (apply_change cfg ch)"
  have wf: "conf_wf cfg" using A by (simp add: is_quorum_def)
  have "card (?V \<union> ?W) < card A + card B"
  proof -
    consider "?W = ?V" | s where "?W = insert s ?V" | s where "?W = ?V - {s}"
      using voters_apply_change [OF wf, of ch] by blast
    then show ?thesis
    proof cases
      case 1
      then show ?thesis using quorum_card(1) [OF A] quorum_card(1) [OF B] by simp
    next
      case 2
      then have "?V \<union> ?W = ?W" by auto
      moreover have "card ?W \<le> Suc (card ?V)" by (simp add: 2 card_insert_if)
      ultimately show ?thesis using quorum_card(1) [OF A] quorum_card(1) [OF B] by simp
    next
      case 3
      then have "?V \<union> ?W = ?V" by auto
      moreover have "card ?V \<le> Suc (card ?W)" using diff_card_le_card_Diff [of "{s}" ?V] by (simp add: 3)
      ultimately show ?thesis using quorum_card(1) [OF A] quorum_card(1) [OF B] by simp
    qed
  qed
  then show "A \<inter> B \<noteq> {}"
    using quorum_card(2) [OF A] quorum_card(2) [OF B]
    by (intro overlap_by_card [of _ "?V \<union> ?W"]) auto
qed

text \<open>
  C16: Majorities before and after a membership change share a voter. For every configuration
  change, a quorum of the old configuration and a quorum of the new one intersect, so the two
  can never decide differently.
\<close>

theorem adjacent_quorums_meet:
  assumes "is_quorum cfg A" "is_quorum (apply_change cfg ch) B"
  shows "A \<inter> B \<noteq> {}"
  by (rule next_conf.meet [OF assms])

definition duo_conf :: configuration where
  "duo_conf = \<lparr>servers = [\<lparr>srv_id = 1, srv_role = MEMBER\<rparr>, \<lparr>srv_id = 2, srv_role = MEMBER\<rparr>]\<rparr>"

theorem adjacent_quorums_meet_witness:
  "is_quorum duo_conf {1, 2} \<and> is_quorum (apply_change duo_conf (AddMember 3)) {1, 3} \<and> {1, 2} \<inter> {1, 3 :: nat} \<noteq> {}"
proof -
  have a: "is_quorum duo_conf {1, 2}" by code_simp
  have b: "is_quorum (apply_change duo_conf (AddMember 3)) {1, 3}" by code_simp
  from a b adjacent_quorums_meet [OF a b] show ?thesis by blast
qed

end
