(* ===== verification/Log_Metadata.thy ===== *)
theory Log_Metadata
  imports Algorithms Raft_Proto
begin

text \<open>
  \<open>LogMetadata\<close> of \<open>pkg/raft/src/log/log_metadata.rs\<close>: the consensus module's own copy of the
  term and the sequence of every log entry, kept as the start offsets of contiguous runs.
  The operations are modelled on the compressed form, with the binary search of
  \<open>upper_bound_by\<close>; the abstraction is the function from a log index to its offset, and each
  operation is characterised by what a lookup returns after it.
\<close>

section \<open>Data\<close>

type_synonym log_sequence = nat

definition zero_sequence :: log_sequence where
  "zero_sequence = 0"

definition plus_sequence :: "log_sequence \<Rightarrow> nat \<Rightarrow> log_sequence" where
  "plus_sequence s n = s + n"

definition next_sequence :: "log_sequence \<Rightarrow> log_sequence" where
  "next_sequence s = plus_sequence s 1"

record log_offset =
  off_position :: log_position
  off_sequence :: log_sequence

abbreviation off_index :: "log_offset \<Rightarrow> log_index" where
  "off_index off \<equiv> pos_index (off_position off)"

abbreviation off_term :: "log_offset \<Rightarrow> raft_term" where
  "off_term off \<equiv> pos_term (off_position off)"

definition zero_offset :: log_offset where
  "zero_offset = \<lparr>off_position = zero_position, off_sequence = zero_sequence\<rparr>"

record log_metadata =
  lm_offsets :: "log_offset list"
  lm_last_offset :: log_offset

section \<open>Operations\<close>

definition lm_new :: log_metadata where
  "lm_new = \<lparr>lm_offsets = [zero_offset], lm_last_offset = zero_offset\<rparr>"

definition lm_prev :: "log_metadata \<Rightarrow> log_offset option" where
  "lm_prev m = index_vec (lm_offsets m) 0"

definition lm_last :: "log_metadata \<Rightarrow> log_offset" where
  "lm_last m = lm_last_offset m"

text \<open>
  The outer option of \<open>lm_lookup\<close> and \<open>lm_lookup_seq\<close> is a panic, the inner one their result.
  \<open>VecDeque::as_slices\<close> gives the contents as two slices; where they are split does not
  matter to the search.
\<close>

definition lm_lookup :: "log_metadata \<Rightarrow> log_index \<Rightarrow> log_offset option option" where
  "lm_lookup m index =
     (if index > off_index (lm_last_offset m) then Some None
      else do {
        found \<leftarrow> upper_bound_by (Two (lm_offsets m) []) index (\<lambda>off idx. off_index off \<le> idx);
        case found of
          None \<Rightarrow> Some None
        | Some prev_offset_idx \<Rightarrow> do {
            prev_offset \<leftarrow> index_vec (lm_offsets m) prev_offset_idx;
            relative \<leftarrow> sub_u64 index (off_index prev_offset);
            Some (Some \<lparr>off_position = new_position (off_term prev_offset) index,
                        off_sequence = plus_sequence (off_sequence prev_offset) relative\<rparr>)
          }
      })"

definition lm_lookup_seq :: "log_metadata \<Rightarrow> log_sequence \<Rightarrow> log_offset option option" where
  "lm_lookup_seq m seq =
     (if seq > off_sequence (lm_last_offset m) then Some None
      else do {
        found \<leftarrow> upper_bound_by (Two (lm_offsets m) []) seq (\<lambda>off s. off_sequence off \<le> s);
        case found of
          None \<Rightarrow> Some None
        | Some prev_offset_idx \<Rightarrow> do {
            prev_offset \<leftarrow> index_vec (lm_offsets m) prev_offset_idx;
            relative_offset \<leftarrow> sub_u64 seq (off_sequence prev_offset);
            Some (Some \<lparr>off_position =
                          new_position (off_term prev_offset) (off_index prev_offset + relative_offset),
                        off_sequence = seq\<rparr>)
          }
      })"

definition lm_truncate :: "log_metadata \<Rightarrow> log_index \<Rightarrow> log_metadata option" where
  "lm_truncate m start_index = do {
     before \<leftarrow> sub_u64 start_index 1;
     found \<leftarrow> upper_bound_by (Two (lm_offsets m) []) before (\<lambda>off idx. off_index off \<le> idx);
     prev_offset_idx \<leftarrow> found;
     let m1 = m\<lparr>lm_offsets := take (prev_offset_idx + 1) (lm_offsets m)\<rparr>;
     off \<leftarrow> lm_lookup m1 before;
     last_offset \<leftarrow> off;
     Some (m1\<lparr>lm_last_offset := last_offset\<rparr>)
   }"

definition lm_append :: "log_metadata \<Rightarrow> log_offset \<Rightarrow> log_metadata option" where
  "lm_append m offset = do {
     _ \<leftarrow> rust_assert (off_term offset \<ge> off_term (lm_last m));
     _ \<leftarrow> rust_assert (off_sequence offset > off_sequence (lm_last_offset m));
     m1 \<leftarrow> (if off_index offset \<le> off_index (lm_last m) then lm_truncate m (off_index offset) else Some m);
     _ \<leftarrow> rust_assert (off_index offset = off_index (lm_last m1) + 1);
     let m2 = (if off_term offset \<noteq> off_term (lm_last_offset m1)
                  \<or> off_sequence offset \<noteq> plus_sequence (off_sequence (lm_last_offset m1)) 1
               then m1\<lparr>lm_offsets := lm_offsets m1 @ [offset]\<rparr> else m1);
     Some (m2\<lparr>lm_last_offset := offset\<rparr>)
   }"

definition lm_discard :: "log_metadata \<Rightarrow> log_position \<Rightarrow> log_metadata option" where
  "lm_discard m new_start =
     (if pos_index new_start > off_index (lm_last_offset m) then
        Some (m\<lparr>lm_offsets := [\<lparr>off_position = new_start, off_sequence = off_sequence (lm_last_offset m)\<rparr>],
                lm_last_offset := (lm_last_offset m)\<lparr>off_position := new_start\<rparr>\<rparr>)
      else do {
        prev \<leftarrow> lm_prev m;
        if pos_index new_start \<le> off_index prev then Some m
        else do {
          found \<leftarrow> lm_lookup m (pos_index new_start);
          at \<leftarrow> found;
          idx \<leftarrow> upper_bound_by (Two (lm_offsets m) []) (pos_index new_start) (\<lambda>off i. off_index off \<le> i);
          offset_idx \<leftarrow> idx;
          case drop offset_idx (lm_offsets m) of
            [] \<Rightarrow> None
          | _ # rest \<Rightarrow>
              Some (m\<lparr>lm_offsets := \<lparr>off_position = new_start, off_sequence = off_sequence at\<rparr> # rest\<rparr>)
        }
      })"

section \<open>The abstraction\<close>

definition shift_offset :: "log_offset \<Rightarrow> nat \<Rightarrow> log_offset" where
  "shift_offset o1 k =
     \<lparr>off_position = new_position (off_term o1) (off_index o1 + k), off_sequence = off_sequence o1 + k\<rparr>"

definition lm_at :: "log_metadata \<Rightarrow> log_index \<Rightarrow> log_offset option" where
  "lm_at m i =
     (if i > off_index (lm_last_offset m) then None
      else map_option (\<lambda>off. shift_offset off (i - off_index off))
             (find (\<lambda>off. off_index off \<le> i) (rev (lm_offsets m))))"

text \<open>
  One offset can be followed by another: the index grows, the term does not fall and the
  sequence grows at least as much as the index.
\<close>

definition follows :: "log_offset \<Rightarrow> log_offset \<Rightarrow> bool" where
  "follows a b \<longleftrightarrow> off_index a < off_index b \<and> off_term a \<le> off_term b
     \<and> off_sequence a + (off_index b - off_index a) \<le> off_sequence b"

definition lm_wf :: "log_metadata \<Rightarrow> bool" where
  "lm_wf m \<longleftrightarrow> lm_offsets m \<noteq> [] \<and> sorted_wrt follows (lm_offsets m)
     \<and> off_index (last (lm_offsets m)) \<le> off_index (lm_last_offset m)
     \<and> lm_last_offset m =
         shift_offset (last (lm_offsets m)) (off_index (lm_last_offset m) - off_index (last (lm_offsets m)))"


section \<open>Searching the offsets\<close>

lemma follows_trans: "follows a b \<Longrightarrow> follows b c \<Longrightarrow> follows a c"
  by (auto simp: follows_def)

lemma shift_offset_sel [simp]:
  "off_index (shift_offset a k) = off_index a + k"
  "off_term (shift_offset a k) = off_term a"
  "off_sequence (shift_offset a k) = off_sequence a + k"
  by (simp_all add: shift_offset_def)

lemma shift_offset_0 [simp]: "shift_offset a 0 = a"
  by (simp add: shift_offset_def new_position_def)

lemma offset_eqI:
  "off_index a = off_index b \<Longrightarrow> off_term a = off_term b \<Longrightarrow> off_sequence a = off_sequence b \<Longrightarrow> a = (b :: log_offset)"
  by (cases a; cases b) (auto intro: log_position.equality)

lemma sorted_follows_nth:
  "sorted_wrt follows os \<Longrightarrow> i < j \<Longrightarrow> j < length os \<Longrightarrow> follows (os ! i) (os ! j)"
  by (simp add: sorted_wrt_iff_nth_less)

lemma prefix_closed_index:
  assumes "sorted_wrt follows os"
  shows "prefix_closed (\<lambda>off. off_index off \<le> i) os"
  unfolding prefix_closed_def
proof (intro allI impI)
  fix k j
  assume "k \<le> j" "j < length os" "off_index (os ! j) \<le> i"
  then show "off_index (os ! k) \<le> i"
    using sorted_follows_nth [OF assms, of k j] by (cases "k = j") (auto simp: follows_def)
qed

lemma prefix_closed_sequence:
  assumes "sorted_wrt follows os"
  shows "prefix_closed (\<lambda>off. off_sequence off \<le> s) os"
  unfolding prefix_closed_def
proof (intro allI impI)
  fix k j
  assume "k \<le> j" "j < length os" "off_sequence (os ! j) \<le> s"
  then show "off_sequence (os ! k) \<le> s"
    using sorted_follows_nth [OF assms, of k j] by (cases "k = j") (auto simp: follows_def)
qed

text \<open>The binary search finds the run that an index belongs to.\<close>

lemma search_index:
  assumes "sorted_wrt follows os"
  shows "\<exists>r. upper_bound_by (Two os []) i (\<lambda>off idx. off_index off \<le> idx) = Some r
    \<and> map_option (\<lambda>k. os ! k) r = find (\<lambda>off. off_index off \<le> i) (rev os)
    \<and> (\<forall>k. r = Some k \<longrightarrow> k < length os \<and> off_index (os ! k) \<le> i
         \<and> (\<forall>j. k < j \<longrightarrow> j < length os \<longrightarrow> i < off_index (os ! j)))"
  using upper_bound_by_eq [of "\<lambda>off idx. off_index off \<le> idx" i "Two os []"]
    prefix_closed_index [OF assms, of i] last_sat_find [OF prefix_closed_index [OF assms, of i]]
    last_sat_Some [OF prefix_closed_index [OF assms, of i]]
  by (auto simp: not_le)

lemma search_sequence:
  assumes "sorted_wrt follows os"
  shows "\<exists>r. upper_bound_by (Two os []) s (\<lambda>off s. off_sequence off \<le> s) = Some r
    \<and> map_option (\<lambda>k. os ! k) r = find (\<lambda>off. off_sequence off \<le> s) (rev os)
    \<and> (\<forall>k. r = Some k \<longrightarrow> k < length os \<and> off_sequence (os ! k) \<le> s)"
  using upper_bound_by_eq [of "\<lambda>off s. off_sequence off \<le> s" s "Two os []"]
    prefix_closed_sequence [OF assms, of s] last_sat_find [OF prefix_closed_sequence [OF assms, of s]]
    last_sat_Some [OF prefix_closed_sequence [OF assms, of s]]
  by auto

lemma lm_lookup_sorted:
  assumes "sorted_wrt follows (lm_offsets m)"
  shows "lm_lookup m i = Some (lm_at m i)"
proof -
  from search_index [OF assms, of i] obtain r where r:
    "upper_bound_by (Two (lm_offsets m) []) i (\<lambda>off idx. off_index off \<le> idx) = Some r"
    "map_option (\<lambda>k. lm_offsets m ! k) r = find (\<lambda>off. off_index off \<le> i) (rev (lm_offsets m))"
    "\<And>k. r = Some k \<Longrightarrow> k < length (lm_offsets m) \<and> off_index (lm_offsets m ! k) \<le> i" by blast
  show ?thesis
  proof (cases r)
    case None
    then show ?thesis using r by (simp add: lm_lookup_def lm_at_def)
  next
    case (Some k)
    then show ?thesis using r(1) r(2) [symmetric] r(3) [OF Some]
      by (simp add: lm_lookup_def lm_at_def index_vec_lt sub_u64_le shift_offset_def plus_sequence_def)
  qed
qed

lemma lm_wfD:
  assumes "lm_wf m"
  shows "lm_offsets m \<noteq> []" "sorted_wrt follows (lm_offsets m)"
    "off_index (last (lm_offsets m)) \<le> off_index (lm_last_offset m)"
    "lm_last_offset m =
       shift_offset (last (lm_offsets m)) (off_index (lm_last_offset m) - off_index (last (lm_offsets m)))"
  using assms unfolding lm_wf_def by blast+

lemma lm_lookup_at: "lm_wf m \<Longrightarrow> lm_lookup m i = Some (lm_at m i)"
  by (rule lm_lookup_sorted) (rule lm_wfD)

lemma lm_prev_wf: "lm_wf m \<Longrightarrow> lm_prev m = Some (hd (lm_offsets m))"
  using lm_wfD(1) [of m] by (simp add: lm_prev_def index_vec_def hd_conv_nth)

abbreviation lm_first :: "log_metadata \<Rightarrow> log_offset" where
  "lm_first m \<equiv> hd (lm_offsets m)"

lemma follows_hd:
  assumes "sorted_wrt follows os" "x \<in> set os"
  shows "x = hd os \<or> follows (hd os) x"
  using assms by (cases os) auto

lemma follows_last:
  assumes "sorted_wrt follows os" "x \<in> set os"
  shows "x = last os \<or> follows x (last os)"
  using assms by (cases os rule: rev_cases) (auto simp: sorted_wrt_append)

section \<open>Which indices are present\<close>

lemma lm_at_None_iff:
  assumes "lm_wf m"
  shows "lm_at m i = None \<longleftrightarrow> i < off_index (lm_first m) \<or> off_index (lm_last m) < i"
proof -
  have hd: "hd (lm_offsets m) \<in> set (lm_offsets m)" using lm_wfD(1) [OF assms] by simp
  have "find (\<lambda>off. off_index off \<le> i) (rev (lm_offsets m)) = None \<longleftrightarrow> i < off_index (lm_first m)"
  proof
    assume "find (\<lambda>off. off_index off \<le> i) (rev (lm_offsets m)) = None"
    then show "i < off_index (lm_first m)" using hd by (auto simp: find_None_iff not_le)
  next
    assume "i < off_index (lm_first m)"
    then show "find (\<lambda>off. off_index off \<le> i) (rev (lm_offsets m)) = None"
      using follows_hd [OF lm_wfD(2) [OF assms]] by (fastforce simp: find_None_iff follows_def)
  qed
  then show ?thesis by (auto simp: lm_at_def lm_last_def)
qed

lemma lm_at_SomeD:
  assumes "lm_at m i = Some a"
  shows "off_index a = i"
    and "\<exists>off \<in> set (lm_offsets m). off_index off \<le> i \<and> a = shift_offset off (i - off_index off)"
    and "i \<le> off_index (lm_last m)"
proof -
  from assms obtain off where off: "find (\<lambda>off. off_index off \<le> i) (rev (lm_offsets m)) = Some off"
    "a = shift_offset off (i - off_index off)" "i \<le> off_index (lm_last_offset m)"
    by (auto simp: lm_at_def split: if_splits)
  from off(1) have "off \<in> set (lm_offsets m)" "off_index off \<le> i"
    using find_SomeD by fastforce+
  with off show "off_index a = i" "i \<le> off_index (lm_last m)"
    "\<exists>off \<in> set (lm_offsets m). off_index off \<le> i \<and> a = shift_offset off (i - off_index off)"
    by (auto simp: lm_last_def)
qed

lemma lm_at_last:
  assumes "lm_wf m"
  shows "lm_at m (off_index (lm_last m)) = Some (lm_last m)"
proof -
  obtain ys y where ys: "lm_offsets m = ys @ [y]"
    using lm_wfD(1) [OF assms] by (metis rev_exhaust)
  then show ?thesis using lm_wfD(3,4) [OF assms]
    by (simp add: lm_at_def lm_last_def)
qed


lemma run_of_index:
  assumes "sorted_wrt follows os"
  shows "find (\<lambda>off. off_index off \<le> i) (rev os) = Some x \<longleftrightarrow>
    (\<exists>k < length os. x = os ! k \<and> off_index (os ! k) \<le> i \<and> (\<forall>j. k < j \<longrightarrow> j < length os \<longrightarrow> i < off_index (os ! j)))"
  using last_sat_find [OF prefix_closed_index [OF assms, of i], symmetric]
    last_sat_Some [OF prefix_closed_index [OF assms, of i]]
  by (auto simp: not_le)

lemma lm_at_follows:
  assumes wf: "lm_wf m" and a: "lm_at m i = Some a" and b: "lm_at m j = Some b" and "i < j"
  shows "follows a b"
proof -
  note sorted = lm_wfD(2) [OF wf]
  from a obtain k where k: "k < length (lm_offsets m)" "off_index (lm_offsets m ! k) \<le> i"
    "\<And>l. k < l \<Longrightarrow> l < length (lm_offsets m) \<Longrightarrow> i < off_index (lm_offsets m ! l)"
    "a = shift_offset (lm_offsets m ! k) (i - off_index (lm_offsets m ! k))"
    by (auto simp: lm_at_def run_of_index [OF sorted] split: if_splits)
  from b obtain l where l: "l < length (lm_offsets m)" "off_index (lm_offsets m ! l) \<le> j"
    "\<And>k. l < k \<Longrightarrow> k < length (lm_offsets m) \<Longrightarrow> j < off_index (lm_offsets m ! k)"
    "b = shift_offset (lm_offsets m ! l) (j - off_index (lm_offsets m ! l))"
    by (auto simp: lm_at_def run_of_index [OF sorted] split: if_splits)
  consider "k = l" | "k < l" | "l < k" by linarith
  then show ?thesis
  proof cases
    case 1
    then show ?thesis using k l \<open>i < j\<close> by (simp add: follows_def)
  next
    case 2
    have "follows (lm_offsets m ! k) (lm_offsets m ! l)"
      using sorted_follows_nth [OF sorted 2 l(1)] .
    moreover have "i < off_index (lm_offsets m ! l)" using k(3) [OF 2 l(1)] .
    ultimately show ?thesis using k(2,4) l(2,4) \<open>i < j\<close> unfolding follows_def by auto
  next
    case 3
    then show ?thesis using l(3) [OF 3 k(1)] k(2) \<open>i < j\<close> by simp
  qed
qed

lemma lm_at_Some_range:
  assumes "lm_wf m" "off_index (lm_first m) \<le> i" "i \<le> off_index (lm_last m)"
  obtains a where "lm_at m i = Some a" "off_index a = i"
  using lm_at_None_iff [OF assms(1), of i] lm_at_SomeD(1) assms(2,3) by (cases "lm_at m i") auto

lemma lm_first_le_last: "lm_wf m \<Longrightarrow> off_index (lm_first m) \<le> off_index (lm_last m)"
  using lm_at_None_iff [of m "off_index (lm_last m)"] lm_at_last [of m] by (auto simp: not_less)

lemma lm_at_first:
  assumes "lm_wf m"
  shows "lm_at m (off_index (lm_first m)) = Some (lm_first m)"
proof -
  obtain y ys where ys: "lm_offsets m = y # ys" using lm_wfD(1) [OF assms] by (cases "lm_offsets m") auto
  have "find (\<lambda>off. off_index off \<le> off_index y) (rev (y # ys)) = Some y"
    using lm_wfD(2) [OF assms] unfolding ys
    by (subst run_of_index) (auto simp: follows_def intro!: exI [of _ 0])
  then show ?thesis using lm_first_le_last [OF assms] by (simp add: lm_at_def lm_last_def ys)
qed

section \<open>Truncation and append\<close>

lemma lm_truncate_correct:
  assumes wf: "lm_wf m" and "off_index (lm_first m) < start" "start \<le> Suc (off_index (lm_last m))"
  shows "\<exists>m'. lm_truncate m start = Some m' \<and> lm_wf m' \<and> lm_first m' = lm_first m
    \<and> (\<forall>i. lm_at m' i = (if i < start then lm_at m i else None))"
proof -
  let ?os = "lm_offsets m" and ?j = "start - 1"
  note sorted = lm_wfD(2) [OF wf]
  from search_index [OF sorted, of ?j] obtain r where r:
    "upper_bound_by (Two ?os []) ?j (\<lambda>off idx. off_index off \<le> idx) = Some r"
    "map_option (\<lambda>k. ?os ! k) r = find (\<lambda>off. off_index off \<le> ?j) (rev ?os)"
    "\<And>k. r = Some k \<Longrightarrow> k < length ?os \<and> off_index (?os ! k) \<le> ?j
       \<and> (\<forall>l. k < l \<longrightarrow> l < length ?os \<longrightarrow> ?j < off_index (?os ! l))" by blast
  obtain a where a: "lm_at m ?j = Some a"
    using lm_at_None_iff [OF wf, of ?j] assms(2,3) by (cases "lm_at m ?j") auto
  then obtain k where k: "r = Some k" using r(2) by (cases r) (auto simp: lm_at_def split: if_splits)
  note rk = r(3) [OF k]
  let ?m1 = "m\<lparr>lm_offsets := take (k + 1) ?os\<rparr>"
  have rest: "\<not> off_index x \<le> i" if "x \<in> set (drop (k + 1) ?os)" "i \<le> ?j" for x i
  proof -
    from that(1) obtain n where n: "n < length ?os - (k + 1)" "x = ?os ! (k + 1 + n)"
      by (auto simp: in_set_conv_nth)
    define l where "l = k + 1 + n"
    have "k < l" "l < length ?os" "x = ?os ! l" using n by (auto simp: l_def)
    then show ?thesis using rk that(2) by (auto simp: not_le)
  qed
  have find1: "find (\<lambda>off. off_index off \<le> i) (rev (take (k + 1) ?os)) =
      find (\<lambda>off. off_index off \<le> i) (rev ?os)" if "i \<le> ?j" for i
    using rest that by (intro find_rev_take) blast
  have sorted1: "sorted_wrt follows (take (k + 1) ?os)" using sorted by (rule sorted_wrt_take)
  have "lm_at ?m1 ?j = Some a" using a find1 [of ?j] by (simp add: lm_at_def split: if_splits)
  then have look: "lm_lookup ?m1 ?j = Some (Some a)" using lm_lookup_sorted [of ?m1] sorted1 by simp
  have a_def: "a = shift_offset (?os ! k) (?j - off_index (?os ! k))"
    using a r(2) k by (auto simp: lm_at_def split: if_splits)
  let ?m' = "?m1\<lparr>lm_last_offset := a\<rparr>"
  have last1: "last (take (k + 1) ?os) = ?os ! k"
    using rk by (simp add: take_Suc_conv_app_nth)
  have a_index: "off_index a = ?j" using lm_at_SomeD(1) [OF a] .
  have "lm_wf ?m'"
    unfolding lm_wf_def
  proof (intro conjI)
    show "lm_offsets ?m' \<noteq> []" using rk by auto
    show "sorted_wrt follows (lm_offsets ?m')" using sorted1 by simp
    show "off_index (last (lm_offsets ?m')) \<le> off_index (lm_last_offset ?m')"
      using rk a_index last1 by simp
    show "lm_last_offset ?m' = shift_offset (last (lm_offsets ?m'))
        (off_index (lm_last_offset ?m') - off_index (last (lm_offsets ?m')))"
      using last1 a_index a_def by simp
  qed
  moreover have "lm_truncate m start = Some ?m'"
    using assms(2) r(1) k look by (simp add: lm_truncate_def sub_u64_le)
  moreover have "lm_first ?m' = lm_first m" by (simp add: hd_take)
  moreover have "lm_at ?m' i = (if i < start then lm_at m i else None)" for i
  proof (cases "i < start")
    case True
    then have "i \<le> ?j" by simp
    then show ?thesis using True find1 [of i] a_index lm_at_SomeD(3) [OF a]
      by (simp add: lm_at_def lm_last_def)
  next
    case False
    then have "off_index a < i" using a_index assms(2) by linarith
    then show ?thesis using False by (simp add: lm_at_def)
  qed
  ultimately show ?thesis by blast
qed


text \<open>The part of \<open>append\<close> after the truncation: the new entry directly follows the last one.\<close>

definition lm_extend :: "log_metadata \<Rightarrow> log_offset \<Rightarrow> log_metadata" where
  "lm_extend m offset =
     (let m2 = (if off_term offset \<noteq> off_term (lm_last_offset m)
                  \<or> off_sequence offset \<noteq> plus_sequence (off_sequence (lm_last_offset m)) 1
                then m\<lparr>lm_offsets := lm_offsets m @ [offset]\<rparr> else m)
      in m2\<lparr>lm_last_offset := offset\<rparr>)"

lemma lm_extend_correct:
  assumes wf: "lm_wf m" and f: "follows (lm_last m) off" and idx: "off_index off = Suc (off_index (lm_last m))"
  shows "lm_wf (lm_extend m off) \<and> lm_first (lm_extend m off) = lm_first m \<and> lm_last (lm_extend m off) = off
    \<and> (\<forall>i. lm_at (lm_extend m off) i = (if i = off_index off then Some off else lm_at m i))"
proof -
  obtain d where last: "lm_last m = shift_offset (last (lm_offsets m)) d"
    using lm_wfD(4) [OF wf] by (auto simp: lm_last_def)
  show ?thesis
proof (cases "off_term off \<noteq> off_term (lm_last_offset m) \<or> off_sequence off \<noteq> Suc (off_sequence (lm_last_offset m))")
  case True
  then have ext: "lm_extend m off = m\<lparr>lm_offsets := lm_offsets m @ [off], lm_last_offset := off\<rparr>"
    by (simp add: lm_extend_def plus_sequence_def)
  have "follows (last (lm_offsets m)) off"
    using f idx last unfolding follows_def by simp
  then have "sorted_wrt follows (lm_offsets m @ [off])"
    using lm_wfD(2) [OF wf] follows_last [OF lm_wfD(2) [OF wf]] follows_trans
    by (auto simp: sorted_wrt_append)
  then have "lm_wf (lm_extend m off)" by (simp add: lm_wf_def ext)
  moreover have "lm_at (lm_extend m off) i = (if i = off_index off then Some off else lm_at m i)" for i
    using idx by (auto simp: ext lm_at_def lm_last_def)
  ultimately show ?thesis using lm_wfD(1) [OF wf] by (simp add: ext lm_last_def)
next
  case False
  then have ext: "lm_extend m off = m\<lparr>lm_last_offset := off\<rparr>"
    by (simp add: lm_extend_def plus_sequence_def)
  obtain ys y where ys: "lm_offsets m = ys @ [y]" using lm_wfD(1) [OF wf] by (metis rev_exhaust)
  have off: "off = shift_offset y (off_index off - off_index y)" "off_index y \<le> off_index off"
    using False idx last ys by (auto simp: lm_last_def intro!: offset_eqI)
  have "lm_wf (lm_extend m off)"
    using lm_wfD(1,2) [OF wf] off by (simp add: lm_wf_def ext ys)
  moreover have "lm_at (lm_extend m off) i = (if i = off_index off then Some off else lm_at m i)" for i
  proof -
    consider "i \<le> off_index (lm_last m)" | "i = off_index off" | "off_index off < i" using idx by linarith
    then show ?thesis
    proof cases
      case 1
      then show ?thesis using idx by (simp add: ext lm_at_def lm_last_def)
    next
      case 2
      then show ?thesis using off(2) off(1) [symmetric] by (simp add: ext lm_at_def ys)
    next
      case 3
      then show ?thesis using idx by (simp add: ext lm_at_def lm_last_def)
    qed
  qed
  ultimately show ?thesis by (simp add: ext lm_last_def)
qed
qed

lemma lm_append_extend:
  assumes "off_term off \<ge> off_term (lm_last m)" "off_sequence off > off_sequence (lm_last m)"
    and "(if off_index off \<le> off_index (lm_last m) then lm_truncate m (off_index off) else Some m) = Some m1"
    and "off_index off = Suc (off_index (lm_last m1))"
  shows "lm_append m off = Some (lm_extend m1 off)"
  using assms by (simp add: lm_append_def lm_extend_def lm_last_def Let_def)

lemma lm_append_correct:
  assumes wf: "lm_wf m"
    and t: "off_term (lm_last m) \<le> off_term off" and s: "off_sequence (lm_last m) < off_sequence off"
    and lo: "off_index (lm_first m) < off_index off" and hi: "off_index off \<le> Suc (off_index (lm_last m))"
  shows "\<exists>m'. lm_append m off = Some m' \<and> lm_wf m' \<and> lm_first m' = lm_first m \<and> lm_last m' = off
    \<and> (\<forall>i. lm_at m' i = (if i < off_index off then lm_at m i else if i = off_index off then Some off else None))"
proof -
  let ?i = "off_index off"
  obtain m1 where m1: "(if ?i \<le> off_index (lm_last m) then lm_truncate m ?i else Some m) = Some m1"
    "lm_wf m1" "lm_first m1 = lm_first m" "\<And>j. lm_at m1 j = (if j < ?i then lm_at m j else None)"
  proof (cases "?i \<le> off_index (lm_last m)")
    case True
    then show ?thesis using lm_truncate_correct [OF wf lo] hi that by auto
  next
    case False
    then have "lm_at m j = None" if "?i \<le> j" for j using lm_at_None_iff [OF wf] that by simp
    then show ?thesis using that [of m] False wf by (auto simp: not_less)
  qed
  have "lm_at m1 (?i - 1) \<noteq> None" using m1(4) [of "?i - 1"] lm_at_None_iff [OF wf, of "?i - 1"] lo hi by auto
  then have "?i - 1 \<le> off_index (lm_last m1)" using lm_at_SomeD(3) by blast
  moreover have "off_index (lm_last m1) < ?i"
    using m1(4) [of "off_index (lm_last m1)"] lm_at_last [OF m1(2)] by (auto split: if_splits)
  ultimately have idx: "?i = Suc (off_index (lm_last m1))" by linarith
  have at1: "lm_at m (off_index (lm_last m1)) = Some (lm_last m1)"
    using m1(4) [of "off_index (lm_last m1)"] lm_at_last [OF m1(2)] idx by simp
  have "lm_last m1 = lm_last m \<or> follows (lm_last m1) (lm_last m)"
  proof (cases "off_index (lm_last m1) = off_index (lm_last m)")
    case True
    then show ?thesis using at1 lm_at_last [OF wf] by (metis option.inject)
  next
    case False
    then have "off_index (lm_last m1) < off_index (lm_last m)" using lm_at_SomeD(3) [OF at1] by simp
    then show ?thesis using lm_at_follows [OF wf at1 lm_at_last [OF wf]] by simp
  qed
  then have "off_term (lm_last m1) \<le> off_term (lm_last m)" "off_sequence (lm_last m1) \<le> off_sequence (lm_last m)"
    by (auto simp: follows_def)
  then have "follows (lm_last m1) off" using t s idx unfolding follows_def by linarith
  note ext = lm_extend_correct [OF m1(2) this idx]
  have "lm_at (lm_extend m1 off) j = (if j < ?i then lm_at m j else if j = ?i then Some off else None)" for j
    using ext m1(4) [of j] by auto
  then show ?thesis
    using ext lm_append_extend [OF t s m1(1) idx] m1(3) by (intro exI [of _ "lm_extend m1 off"]) simp
qed

text \<open>The assertions of \<open>append\<close> are exactly these preconditions.\<close>

lemma lm_truncate_SomeD:
  assumes "lm_wf m" "lm_truncate m start = Some m'"
  shows "off_index (lm_first m) < start"
proof (rule ccontr)
  assume "\<not> off_index (lm_first m) < start"
  then have "find (\<lambda>off. off_index off \<le> start - 1) (rev (lm_offsets m)) = None \<or> start = 0"
    using follows_hd [OF lm_wfD(2) [OF assms(1)]]
    by (fastforce simp: find_None_iff follows_def)
  then show False
    using assms(2) search_index [OF lm_wfD(2) [OF assms(1)], of "start - 1"]
    by (auto simp: lm_truncate_def bind_eq_Some_conv)
qed

lemma lm_append_SomeD:
  assumes wf: "lm_wf m" and ok: "lm_append m off = Some m'"
  shows "off_term (lm_last m) \<le> off_term off" "off_sequence (lm_last m) < off_sequence off"
    "off_index (lm_first m) < off_index off" "off_index off \<le> Suc (off_index (lm_last m))"
proof -
  from ok show "off_term (lm_last m) \<le> off_term off" "off_sequence (lm_last m) < off_sequence off"
    by (auto simp: lm_append_def lm_last_def bind_eq_Some_conv)
  have "off_index (lm_first m) < off_index off \<and> off_index off \<le> Suc (off_index (lm_last m))"
  proof (cases "off_index off \<le> off_index (lm_last m)")
    case True
    then show ?thesis using ok lm_truncate_SomeD [OF wf]
      by (auto simp: lm_append_def lm_last_def bind_eq_Some_conv)
  next
    case False
    then show ?thesis using ok lm_first_le_last [OF wf]
      by (auto simp: lm_append_def lm_last_def bind_eq_Some_conv)
  qed
  then show "off_index (lm_first m) < off_index off" "off_index off \<le> Suc (off_index (lm_last m))" by auto
qed

lemma lm_append_Some:
  assumes "lm_wf m" "lm_append m off = Some m'"
  shows "lm_wf m'" "lm_first m' = lm_first m" "lm_last m' = off"
    "lm_at m' i = (if i < off_index off then lm_at m i else if i = off_index off then Some off else None)"
  using lm_append_correct [OF assms(1) lm_append_SomeD [OF assms]] assms(2) by auto

section \<open>Discarding a prefix\<close>

lemma find_rev_Cons:
  "find P (rev (x # xs)) = (case find P (rev xs) of None \<Rightarrow> if P x then Some x else None | Some y \<Rightarrow> Some y)"
  by (simp add: find_append split: option.split)

lemma follows_shift:
  "follows a b \<Longrightarrow> off_index a + k < off_index b \<Longrightarrow> follows (shift_offset a k) b"
  by (auto simp: follows_def)

lemma shift_shift [simp]: "shift_offset (shift_offset a k) l = shift_offset a (k + l)"
  by (auto intro: offset_eqI)

text \<open>Replacing the head of the run list by a later offset of the same run.\<close>

lemma lm_cut_correct:
  assumes wf: "lm_wf m" and k: "k < length (lm_offsets m)" "off_index (lm_offsets m ! k) \<le> p"
    and after: "\<And>l. k < l \<Longrightarrow> l < length (lm_offsets m) \<Longrightarrow> p < off_index (lm_offsets m ! l)"
    and p: "p \<le> off_index (lm_last m)"
    and a: "a = shift_offset (lm_offsets m ! k) (p - off_index (lm_offsets m ! k))"
  defines "m' \<equiv> m\<lparr>lm_offsets := a # drop (Suc k) (lm_offsets m)\<rparr>"
  shows "lm_wf m'" "lm_last m' = lm_last m" "lm_at m' i = (if i < p then None else lm_at m i)"
proof -
  let ?os = "lm_offsets m" and ?x = "lm_offsets m ! k" and ?rest = "drop (Suc k) (lm_offsets m)"
  have a_idx: "off_index a = p" using a k by simp
  have split: "drop k ?os = ?x # ?rest" using k by (simp add: Cons_nth_drop_Suc)
  have rest: "follows a y" if "y \<in> set ?rest" for y
  proof -
    from that obtain n where n: "Suc k + n < length ?os" "y = ?os ! (Suc k + n)"
      by (fastforce simp: in_set_conv_nth less_diff_conv add.commute)
    have "follows ?x y" using sorted_follows_nth [OF lm_wfD(2) [OF wf], of k "Suc k + n"] n by simp
    moreover have "p < off_index y" using after [of "Suc k + n"] n by simp
    ultimately show ?thesis using k by (simp add: a follows_shift)
  qed
  have sorted: "sorted_wrt follows (a # ?rest)"
    using rest lm_wfD(2) [OF wf] by (auto intro: sorted_wrt_drop)
  have last: "lm_last_offset m = shift_offset (last (a # ?rest)) (off_index (lm_last_offset m) - off_index (last (a # ?rest)))
      \<and> off_index (last (a # ?rest)) \<le> off_index (lm_last_offset m)"
  proof (cases "?rest = []")
    case True
    then have "last ?os = ?x" using k split by (metis last_drop last.simps)
    then have "lm_last_offset m = shift_offset ?x (off_index (lm_last_offset m) - off_index ?x)"
      using lm_wfD(4) [OF wf] by simp
    also have "\<dots> = shift_offset a (off_index (lm_last_offset m) - p)"
      using k p by (simp add: a lm_last_def)
    finally show ?thesis using True a_idx p by (simp add: lm_last_def)
  next
    case False
    then have "last (a # ?rest) = last ?os" using k by (simp add: last_drop)
    then show ?thesis using lm_wfD(3,4) [OF wf] by simp
  qed
  show "lm_wf m'" using sorted last unfolding lm_wf_def m'_def by simp
  show "lm_last m' = lm_last m" by (simp add: m'_def lm_last_def)
  show "lm_at m' i = (if i < p then None else lm_at m i)"
  proof (cases "i < p")
    case True
    have "\<not> off_index y \<le> i" if "y \<in> set (a # ?rest)" for y
      using that rest True a_idx by (auto simp: follows_def) fastforce
    then have "find (\<lambda>off. off_index off \<le> i) (rev (a # ?rest)) = None"
      by (auto simp: find_None_iff)
    then show ?thesis using True by (simp add: m'_def lm_at_def)
  next
    case False
    then have "find (\<lambda>off. off_index off \<le> i) (rev ?os) = find (\<lambda>off. off_index off \<le> i) (rev (?x # ?rest))"
      using find_rev_drop [of k ?os "\<lambda>off. off_index off \<le> i"] k split by simp
    moreover have "shift_offset a (i - p) = shift_offset ?x (i - off_index ?x)"
      using False k by (simp add: a)
    ultimately show ?thesis using False k(2) a_idx
      by (auto simp: m'_def lm_at_def find_rev_Cons simp del: rev.simps split: option.splits)
  qed
qed

lemma lm_discard_inside:
  assumes wf: "lm_wf m" and at: "lm_at m (pos_index p) = Some a" and t: "off_term a = pos_term p"
    and lo: "off_index (lm_first m) < pos_index p"
  shows "\<exists>m'. lm_discard m p = Some m' \<and> lm_wf m' \<and> lm_first m' = a \<and> lm_last m' = lm_last m
    \<and> (\<forall>i. lm_at m' i = (if i < pos_index p then None else lm_at m i))"
proof -
  let ?os = "lm_offsets m"
  note sorted = lm_wfD(2) [OF wf]
  have hi: "pos_index p \<le> off_index (lm_last m)" by (rule lm_at_SomeD(3) [OF at])
  from search_index [OF sorted, of "pos_index p"] obtain r where r:
    "upper_bound_by (Two ?os []) (pos_index p) (\<lambda>off idx. off_index off \<le> idx) = Some r"
    "map_option (\<lambda>k. ?os ! k) r = find (\<lambda>off. off_index off \<le> pos_index p) (rev ?os)"
    "\<And>k. r = Some k \<Longrightarrow> k < length ?os \<and> off_index (?os ! k) \<le> pos_index p
       \<and> (\<forall>l. k < l \<longrightarrow> l < length ?os \<longrightarrow> pos_index p < off_index (?os ! l))" by blast
  obtain k where k: "r = Some k" using at r(2) by (cases r) (auto simp: lm_at_def split: if_splits)
  have a: "a = shift_offset (?os ! k) (pos_index p - off_index (?os ! k))"
    using at r(2) k by (auto simp: lm_at_def split: if_splits)
  let ?m' = "m\<lparr>lm_offsets := a # drop (Suc k) ?os\<rparr>"
  have "a = \<lparr>off_position = p, off_sequence = off_sequence a\<rparr>"
    using t lm_at_SomeD(1) [OF at] by (intro offset_eqI) auto
  then have "lm_discard m p = Some ?m'"
    using hi lo r(1) k at r(3) [OF k] lm_prev_wf [OF wf] lm_lookup_at [OF wf]
    by (simp add: lm_discard_def lm_last_def Cons_nth_drop_Suc [symmetric])
  moreover have "lm_first ?m' = a" by simp
  ultimately show ?thesis
    using lm_cut_correct [OF wf _ _ _ hi a] r(3) [OF k] by blast
qed

lemma lm_discard_beyond:
  assumes "off_index (lm_last m) < pos_index p"
  shows "\<exists>m'. lm_discard m p = Some m' \<and> lm_wf m'
    \<and> lm_first m' = \<lparr>off_position = p, off_sequence = off_sequence (lm_last m)\<rparr> \<and> lm_last m' = lm_first m'
    \<and> (\<forall>i. lm_at m' i = (if i = pos_index p then Some (lm_first m') else None))"
proof -
  let ?o = "\<lparr>off_position = p, off_sequence = off_sequence (lm_last m)\<rparr>"
  let ?m' = "m\<lparr>lm_offsets := [?o], lm_last_offset := ?o\<rparr>"
  have "lm_discard m p = Some ?m'"
    using assms by (simp add: lm_discard_def lm_last_def)
  moreover have "lm_wf ?m'" by (simp add: lm_wf_def)
  moreover have "lm_at ?m' i = (if i = pos_index p then Some ?o else None)" for i
    by (auto simp: lm_at_def)
  ultimately show ?thesis by (auto simp: lm_last_def)
qed

lemma lm_discard_before:
  assumes "lm_wf m" "pos_index p \<le> off_index (lm_first m)"
  shows "lm_discard m p = Some m"
  using assms lm_first_le_last [OF assms(1)] lm_prev_wf [OF assms(1)]
  by (simp add: lm_discard_def lm_last_def)

lemma lm_new_correct:
  "lm_wf lm_new" "lm_first lm_new = zero_offset" "lm_last lm_new = zero_offset"
  "lm_at lm_new i = (if i = 0 then Some zero_offset else None)"
  by (auto simp: lm_wf_def lm_new_def lm_last_def lm_at_def zero_offset_def)

section \<open>Lookup by sequence\<close>

lemma lm_lookup_seq_at:
  assumes wf: "lm_wf m" and at: "lm_at m i = Some a"
  shows "lm_lookup_seq m (off_sequence a) = Some (Some a)"
proof -
  let ?os = "lm_offsets m"
  note sorted = lm_wfD(2) [OF wf]
  from at obtain k where k: "k < length ?os" "off_index (?os ! k) \<le> i"
    "\<And>l. k < l \<Longrightarrow> l < length ?os \<Longrightarrow> i < off_index (?os ! l)"
    "a = shift_offset (?os ! k) (i - off_index (?os ! k))"
    by (auto simp: lm_at_def run_of_index [OF sorted] split: if_splits)
  have below: "off_sequence (?os ! k) \<le> off_sequence a" using k(4) by simp
  have above: "\<not> off_sequence (?os ! l) \<le> off_sequence a" if "k < l" "l < length ?os" for l
    using sorted_follows_nth [OF sorted that] k(2,4) k(3) [OF that] by (auto simp: follows_def)
  have "last_sat (\<lambda>off. off_sequence off \<le> off_sequence a) ?os = Some k"
    using below above k(1) by (subst last_sat_Some [OF prefix_closed_sequence [OF sorted]]) blast
  then have found: "upper_bound_by (Two ?os []) (off_sequence a) (\<lambda>off s. off_sequence off \<le> s) = Some (Some k)"
    using upper_bound_by_eq [of "\<lambda>off s. off_sequence off \<le> s" "off_sequence a" "Two ?os []"]
      prefix_closed_sequence [OF sorted] by simp
  have "off_sequence a \<le> off_sequence (lm_last m)"
  proof (cases "i = off_index (lm_last m)")
    case True
    then show ?thesis using at lm_at_last [OF wf] by (metis option.inject order_refl)
  next
    case False
    then have "i < off_index (lm_last m)" using lm_at_SomeD(3) [OF at] by simp
    then show ?thesis using lm_at_follows [OF wf at lm_at_last [OF wf]] by (auto simp: follows_def)
  qed
  moreover have "a = \<lparr>off_position = new_position (off_term (?os ! k))
      (off_index (?os ! k) + (off_sequence a - off_sequence (?os ! k))), off_sequence = off_sequence a\<rparr>"
    using k(4) by (intro offset_eqI) auto
  ultimately show ?thesis
    using found k(1) below by (simp add: lm_lookup_seq_def lm_last_def index_vec_lt sub_u64_le)
qed

end
