(* ===== verification/Memory_Log.thy ===== *)
theory Memory_Log
  imports Log_Metadata
begin

text \<open>
  \<open>MemoryLogSync\<close> of \<open>pkg/raft/src/log/memory_log.rs\<close>, the in-memory implementation of the
  \<open>Log\<close> trait, and \<open>FlushConstraint\<close> of \<open>consensus/constraint.rs\<close>, its client. The contract
  that the trait documents for \<open>append\<close> and \<open>discard\<close> is the locale \<open>position_log\<close>; both the
  memory log and the consensus module's \<open>LogMetadata\<close> interpret it, so that two logs driven
  by the same operations hold the same positions.
\<close>

section \<open>The memory log\<close>

record memory_log =
  ml_prev :: log_position
  ml_log :: "(log_entry \<times> log_sequence) list"

definition ml_new :: memory_log where
  "ml_new = \<lparr>ml_prev = zero_position, ml_log = []\<rparr>"

definition off_for :: "memory_log \<Rightarrow> log_index \<Rightarrow> nat option" where
  "off_for l index =
     (let first_index = pos_index (ml_prev l) + 1
      in if index < first_index then None
         else if index - first_index \<ge> length (ml_log l) then None
         else Some (index - first_index))"

definition ml_last_index :: "memory_log \<Rightarrow> log_index" where
  "ml_last_index l = pos_index (ml_prev l) + length (ml_log l)"

definition ml_term :: "memory_log \<Rightarrow> log_index \<Rightarrow> raft_term option option" where
  "ml_term l index =
     (if index = pos_index (ml_prev l) then Some (Some (pos_term (ml_prev l)))
      else case off_for l index of
        None \<Rightarrow> Some None
      | Some off \<Rightarrow> (case index_vec (ml_log l) off of
            Some v \<Rightarrow> do {
              _ \<leftarrow> rust_assert (pos_index (le_pos (fst v)) = index);
              Some (Some (pos_term (le_pos (fst v))))
            }
          | None \<Rightarrow> Some None))"

definition ml_entry :: "memory_log \<Rightarrow> log_index \<Rightarrow> (log_entry \<times> log_sequence) option" where
  "ml_entry l index = (case off_for l index of None \<Rightarrow> None | Some off \<Rightarrow> index_vec (ml_log l) off)"

definition ml_entries :: "memory_log \<Rightarrow> log_index \<Rightarrow> log_index \<Rightarrow> (log_entry list \<times> log_sequence) option" where
  "ml_entries l start_index end_index =
     (case off_for l start_index of None \<Rightarrow> None | Some start_off \<Rightarrow>
       (case off_for l end_index of None \<Rightarrow> None | Some end_off \<Rightarrow>
          if start_off \<ge> length (ml_log l) \<or> end_off \<ge> length (ml_log l) then None
          else Some (map (\<lambda>i. fst (ml_log l ! i)) [start_off..<end_off + 1], snd (ml_log l ! end_off))))"

definition ml_append :: "memory_log \<Rightarrow> log_entry \<Rightarrow> log_sequence \<Rightarrow> memory_log option" where
  "ml_append l entry sequence = do {
     l1 \<leftarrow> (if pos_index (le_pos entry) \<le> ml_last_index l
            then do {
              off \<leftarrow> off_for l (pos_index (le_pos entry));
              Some (l\<lparr>ml_log := take off (ml_log l)\<rparr>)
            }
            else Some l);
     _ \<leftarrow> rust_assert (ml_last_index l1 + 1 = pos_index (le_pos entry));
     Some (l1\<lparr>ml_log := ml_log l1 @ [(entry, sequence)]\<rparr>)
   }"

definition ml_discard :: "memory_log \<Rightarrow> log_position \<Rightarrow> (string + memory_log) option" where
  "ml_discard l pos =
     (if pos_index pos \<le> pos_index (ml_prev l) then
        if pos_term pos > pos_term (ml_prev l) then Some (Inl ''Re-discard has unrealistic term'')
        else Some (Inr l)
      else if pos_index pos > ml_last_index l then do {
        last_term \<leftarrow> ml_term l (ml_last_index l);
        last_term \<leftarrow> last_term;
        if pos_term pos < last_term then Some (Inl ''Discarding must strictly use monotonic terms'')
        else Some (Inr \<lparr>ml_prev = pos, ml_log = []\<rparr>)
      }
      else do {
        i \<leftarrow> off_for l (pos_index pos);
        v \<leftarrow> index_vec (ml_log l) i;
        if pos_term pos \<noteq> pos_term (le_pos (fst v)) then
          Some (Inl ''Inconsistent term in log and discard call.'')
        else Some (Inr \<lparr>ml_prev = le_pos (fst v), ml_log = drop (i + 1) (ml_log l)\<rparr>)
      })"

definition ml_last_flushed :: "memory_log \<Rightarrow> log_sequence" where
  "ml_last_flushed l = (if ml_log l = [] then zero_sequence else snd (last (ml_log l)))"

section \<open>The contract of a log of positions\<close>

text \<open>
  The specification: a log is the list of its positions, its head the last discarded one.
  Appending replaces everything at or after the new index; discarding removes everything
  before the given position, and leaves that position alone when the log ends before it.
\<close>

definition spec_append :: "log_position list \<Rightarrow> log_position \<Rightarrow> log_position list" where
  "spec_append ps p = takeWhile (\<lambda>q. pos_index q < pos_index p) ps @ [p]"

definition spec_discard :: "log_position list \<Rightarrow> log_position \<Rightarrow> log_position list" where
  "spec_discard ps p = (case dropWhile (\<lambda>q. pos_index q < pos_index p) ps of [] \<Rightarrow> [p] | qs \<Rightarrow> qs)"

definition contiguous :: "log_position list \<Rightarrow> bool" where
  "contiguous ps \<longleftrightarrow> ps \<noteq> [] \<and> (\<forall>k < length ps. pos_index (ps ! k) = pos_index (hd ps) + k)"

definition spec_term :: "log_position list \<Rightarrow> log_index \<Rightarrow> raft_term option" where
  "spec_term ps i = map_option pos_term (find (\<lambda>q. pos_index q = i) ps)"

text \<open>A discarded position agrees with the log's own entry at that index.\<close>

definition valid_discard :: "log_position list \<Rightarrow> log_position \<Rightarrow> bool" where
  "valid_discard ps p \<longleftrightarrow> (\<forall>q \<in> set ps. pos_index q = pos_index p \<longrightarrow> q = p)"

datatype log_op = Append_op log_entry log_sequence | Discard_op log_position

fun spec_op :: "log_position list \<Rightarrow> log_op \<Rightarrow> log_position list" where
  "spec_op ps (Append_op e q) = spec_append ps (le_pos e)"
| "spec_op ps (Discard_op p) = spec_discard ps p"

fun spec_run :: "log_position list \<Rightarrow> log_op list \<Rightarrow> log_position list" where
  "spec_run ps [] = ps"
| "spec_run ps (x # xs) = spec_run (spec_op ps x) xs"

fun valid_ops :: "log_position list \<Rightarrow> log_op list \<Rightarrow> bool" where
  "valid_ops ps [] = True"
| "valid_ops ps (Append_op e q # xs) = valid_ops (spec_append ps (le_pos e)) xs"
| "valid_ops ps (Discard_op p # xs) = (valid_discard ps p \<and> valid_ops (spec_discard ps p) xs)"

definition run_ops :: "('s \<Rightarrow> log_op \<Rightarrow> 's option) \<Rightarrow> 's \<Rightarrow> log_op list \<Rightarrow> 's option" where
  "run_ops step s xs = fold (\<lambda>x r. Option.bind r (\<lambda>s. step s x)) xs (Some s)"

lemma run_ops_simps [simp]:
  "run_ops step s [] = Some s"
  "run_ops step s (x # xs) = Option.bind (step s x) (\<lambda>s'. run_ops step s' xs)"
proof -
  have "fold (\<lambda>x r. Option.bind r (\<lambda>s. step s x)) xs None = None" for xs
    by (induction xs) auto
  then show "run_ops step s (x # xs) = Option.bind (step s x) (\<lambda>s'. run_ops step s' xs)"
    by (cases "step s x") (simp_all add: run_ops_def)
qed (simp add: run_ops_def)

locale position_log =
  fixes inv :: "'s \<Rightarrow> bool"
    and positions :: "'s \<Rightarrow> log_position list"
    and step :: "'s \<Rightarrow> log_op \<Rightarrow> 's option"
  assumes contiguous_positions: "inv s \<Longrightarrow> contiguous (positions s)"
    and append_law: "inv s \<Longrightarrow> step s (Append_op e q) = Some s' \<Longrightarrow>
      inv s' \<and> positions s' = spec_append (positions s) (le_pos e)"
    and discard_law: "inv s \<Longrightarrow> valid_discard (positions s) p \<Longrightarrow> step s (Discard_op p) = Some s' \<Longrightarrow>
      inv s' \<and> positions s' = spec_discard (positions s) p"
begin

lemma run_refines:
  "inv s \<Longrightarrow> valid_ops (positions s) xs \<Longrightarrow> run_ops step s xs = Some s' \<Longrightarrow>
   inv s' \<and> positions s' = spec_run (positions s) xs"
proof (induction xs arbitrary: s)
  case (Cons x xs)
  from Cons.prems(3) obtain s1 where s1: "step s x = Some s1" "run_ops step s1 xs = Some s'"
    by (auto simp: bind_eq_Some_conv)
  show ?case
  proof (cases x)
    case (Append_op e q)
    then show ?thesis using Cons.IH [of s1] Cons.prems s1 append_law [of s e q s1] by simp
  next
    case (Discard_op p)
    then show ?thesis using Cons.IH [of s1] Cons.prems s1 discard_law [of s p s1] by simp
  qed
qed simp

end

section \<open>Contiguous lists of positions\<close>

lemma contiguous_index: "contiguous ps \<Longrightarrow> k < length ps \<Longrightarrow> pos_index (ps ! k) = pos_index (hd ps) + k"
  by (simp add: contiguous_def)

lemma contiguous_Cons:
  "contiguous (p # ps) \<longleftrightarrow> (\<forall>k < length ps. pos_index (ps ! k) = pos_index p + 1 + k)"
  by (auto simp: contiguous_def nth_Cons split: nat.splits)

lemma contiguous_takeWhile:
  assumes "contiguous ps"
  shows "takeWhile (\<lambda>q. pos_index q < n) ps = take (n - pos_index (hd ps)) ps"
proof -
  let ?k = "min (n - pos_index (hd ps)) (length ps)"
  have "takeWhile (\<lambda>q. pos_index q < n) ps = take ?k ps"
    using contiguous_index [OF assms] by (intro takeWhile_eq_take_P_nth) auto
  also have "\<dots> = take (n - pos_index (hd ps)) ps" by (simp add: min_def)
  finally show ?thesis .
qed

lemma contiguous_dropWhile:
  assumes "contiguous ps"
  shows "dropWhile (\<lambda>q. pos_index q < n) ps = drop (n - pos_index (hd ps)) ps"
  by (simp add: dropWhile_eq_drop contiguous_takeWhile [OF assms] min_def)

lemma contiguous_spec_append:
  assumes "contiguous ps" "pos_index (hd ps) < pos_index p" "pos_index p \<le> pos_index (hd ps) + length ps"
  shows "contiguous (spec_append ps p)"
  using assms
  by (auto simp: spec_append_def contiguous_takeWhile contiguous_def nth_append hd_append take_eq_Nil hd_take)

lemma contiguous_find:
  assumes "contiguous ps"
  shows "find (\<lambda>q. pos_index q = i) ps =
    (if pos_index (hd ps) \<le> i \<and> i < pos_index (hd ps) + length ps then Some (ps ! (i - pos_index (hd ps))) else None)"
proof (cases "pos_index (hd ps) \<le> i \<and> i < pos_index (hd ps) + length ps")
  case True
  have "pos_index (ps ! j) \<noteq> i" if "j < i - pos_index (hd ps)" for j
    using contiguous_index [OF assms, of j] that True by linarith
  then have "find (\<lambda>q. pos_index q = i) ps = Some (ps ! (i - pos_index (hd ps)))"
    using contiguous_index [OF assms, of "i - pos_index (hd ps)"] True
    unfolding find_Some_iff by (intro exI [of _ "i - pos_index (hd ps)"]) auto
  then show ?thesis using True by simp
next
  case False
  then have "find (\<lambda>q. pos_index q = i) ps = None"
    using contiguous_index [OF assms] by (auto simp: find_None_iff in_set_conv_nth)
  then show ?thesis using False by auto
qed

section \<open>The memory log keeps the contract\<close>

definition ml_positions :: "memory_log \<Rightarrow> log_position list" where
  "ml_positions l = ml_prev l # map (le_pos \<circ> fst) (ml_log l)"

definition ml_wf :: "memory_log \<Rightarrow> bool" where
  "ml_wf l \<longleftrightarrow> contiguous (ml_positions l)"

definition ml_step :: "memory_log \<Rightarrow> log_op \<Rightarrow> memory_log option" where
  "ml_step l x = (case x of
      Append_op e q \<Rightarrow> ml_append l e q
    | Discard_op p \<Rightarrow> (case ml_discard l p of Some (Inr l') \<Rightarrow> Some l' | _ \<Rightarrow> None))"

lemma ml_wf_index:
  "ml_wf l \<Longrightarrow> k < length (ml_log l) \<Longrightarrow> pos_index (le_pos (fst (ml_log l ! k))) = pos_index (ml_prev l) + 1 + k"
  by (simp add: ml_wf_def ml_positions_def contiguous_Cons)

lemma off_for_eq:
  "off_for l i = (if pos_index (ml_prev l) < i \<and> i \<le> ml_last_index l then Some (i - pos_index (ml_prev l) - 1) else None)"
  by (auto simp: off_for_def ml_last_index_def Let_def)

lemma ml_append_positions:
  assumes "ml_wf l" "ml_append l e q = Some l'"
  shows "ml_wf l'" "ml_positions l' = spec_append (ml_positions l) (le_pos e)"
    "pos_index (ml_prev l) < pos_index (le_pos e)" "pos_index (le_pos e) \<le> ml_last_index l + 1"
    "ml_log l' = take (pos_index (le_pos e) - pos_index (ml_prev l) - 1) (ml_log l) @ [(e, q)]"
    "ml_prev l' = ml_prev l"
proof -
  let ?i = "pos_index (le_pos e)" and ?f = "pos_index (ml_prev l)"
  have bounds: "?f < ?i" "?i \<le> ml_last_index l + 1"
    and log: "ml_log l' = take (?i - ?f - 1) (ml_log l) @ [(e, q)]" and prev: "ml_prev l' = ml_prev l"
    using assms(2)
    by (auto simp: ml_append_def off_for_eq bind_eq_Some_conv ml_last_index_def split: if_splits)
  show "?f < ?i" "?i \<le> ml_last_index l + 1" "ml_log l' = take (?i - ?f - 1) (ml_log l) @ [(e, q)]"
    "ml_prev l' = ml_prev l" by (fact bounds log prev)+
  have c: "contiguous (ml_positions l)" using assms(1) by (simp add: ml_wf_def)
  have hd: "hd (ml_positions l) = ml_prev l" by (simp add: ml_positions_def)
  show *: "ml_positions l' = spec_append (ml_positions l) (le_pos e)"
    unfolding spec_append_def contiguous_takeWhile [OF c] hd using bounds log prev
    by (simp add: ml_positions_def take_Cons' take_map)
  show "ml_wf l'"
    using contiguous_spec_append [OF c, of "le_pos e"] bounds * hd
    by (simp add: ml_wf_def ml_last_index_def) (simp add: ml_positions_def)
qed

lemma ml_discard_positions:
  assumes "ml_wf l" "ml_discard l p = Some (Inr l')" "valid_discard (ml_positions l) p"
  shows "ml_wf l'" "ml_positions l' = spec_discard (ml_positions l) p"
proof -
  let ?f = "pos_index (ml_prev l)"
  have c: "contiguous (ml_positions l)" using assms(1) by (simp add: ml_wf_def)
  have hd: "hd (ml_positions l) = ml_prev l" by (simp add: ml_positions_def)
  have len: "length (ml_positions l) = Suc (length (ml_log l))" by (simp add: ml_positions_def)
  note sd = spec_discard_def contiguous_dropWhile [OF c] hd
  consider (before) "pos_index p \<le> ?f" "l' = l"
    | (beyond) "pos_index p > ml_last_index l" "l' = \<lparr>ml_prev = p, ml_log = []\<rparr>"
    | (inside) k where "k < length (ml_log l)" "pos_index p = ?f + 1 + k"
       "l' = \<lparr>ml_prev = le_pos (fst (ml_log l ! k)), ml_log = drop (k + 1) (ml_log l)\<rparr>"
    using assms(2) inside [of "pos_index p - ?f - 1"]
    by (auto simp: ml_discard_def off_for_eq bind_eq_Some_conv ml_last_index_def split: if_splits)
  then have "ml_positions l' = spec_discard (ml_positions l) p \<and> ml_wf l'"
  proof cases
    case before
    then show ?thesis using assms(1) unfolding sd by (simp add: ml_positions_def)
  next
    case beyond
    then have "drop (pos_index p - ?f) (ml_positions l) = []" using len by (simp add: ml_last_index_def)
    then show ?thesis using beyond unfolding sd by (simp add: ml_positions_def ml_wf_def contiguous_Cons)
  next
    case inside
    have "drop (pos_index p - ?f) (ml_positions l) = ml_positions l'"
      using inside by (simp add: ml_positions_def drop_map flip: Cons_nth_drop_Suc [OF inside(1)])
    moreover have "ml_wf l'"
      using inside ml_wf_index [OF assms(1)] by (simp add: ml_wf_def ml_positions_def contiguous_Cons)
    ultimately show ?thesis unfolding sd by (simp add: ml_positions_def)
  qed
  then show "ml_wf l'" "ml_positions l' = spec_discard (ml_positions l) p" by blast+
qed

interpretation mlog: position_log ml_wf ml_positions ml_step
proof
  show "contiguous (ml_positions s)" if "ml_wf s" for s using that by (simp add: ml_wf_def)
next
  fix s e q s' assume "ml_wf s" "ml_step s (Append_op e q) = Some s'"
  then show "ml_wf s' \<and> ml_positions s' = spec_append (ml_positions s) (le_pos e)"
    using ml_append_positions(1,2) by (simp add: ml_step_def)
next
  fix s p s' assume a: "ml_wf s" "valid_discard (ml_positions s) p" "ml_step s (Discard_op p) = Some s'"
  from a(3) have "ml_discard s p = Some (Inr s')"
    by (simp add: ml_step_def split: option.splits sum.splits)
  then show "ml_wf s' \<and> ml_positions s' = spec_discard (ml_positions s) p"
    using ml_discard_positions [OF a(1) _ a(2)] by blast
qed

lemma ml_term_spec:
  assumes "ml_wf l"
  shows "ml_term l i = Some (spec_term (ml_positions l) i)"
proof -
  let ?f = "pos_index (ml_prev l)"
  have "spec_term (ml_positions l) i = (if ?f \<le> i \<and> i \<le> ml_last_index l
      then Some (pos_term (ml_positions l ! (i - ?f))) else None)"
    using contiguous_find [of "ml_positions l" i] assms
    by (simp add: ml_wf_def spec_term_def ml_last_index_def) (simp add: ml_positions_def less_Suc_eq_le)
  moreover have "pos_index (le_pos (fst (ml_log l ! (i - ?f - 1)))) = i" if "?f < i" "i \<le> ml_last_index l"
    using that ml_wf_index [OF assms, of "i - ?f - 1"] by (simp add: ml_last_index_def)
  ultimately show ?thesis
    by (auto simp: ml_term_def off_for_eq ml_last_index_def index_vec_def nth_Cons' ml_positions_def)
qed

section \<open>The metadata keeps the contract\<close>

definition lm_positions :: "log_metadata \<Rightarrow> log_position list" where
  "lm_positions m = map (\<lambda>i. off_position (the (lm_at m i))) [off_index (lm_first m)..<Suc (off_index (lm_last m))]"

definition lm_step :: "log_metadata \<Rightarrow> log_op \<Rightarrow> log_metadata option" where
  "lm_step m x = (case x of
      Append_op e q \<Rightarrow> lm_append m \<lparr>off_position = le_pos e, off_sequence = q\<rparr>
    | Discard_op p \<Rightarrow> lm_discard m p)"

lemma lm_step_simps [simp]:
  "lm_step m (Append_op e q) = lm_append m \<lparr>off_position = le_pos e, off_sequence = q\<rparr>"
  "lm_step m (Discard_op p) = lm_discard m p"
  by (simp_all add: lm_step_def)

lemma lm_positions_index:
  assumes "lm_wf m" "k < length (lm_positions m)"
  shows "pos_index (lm_positions m ! k) = off_index (lm_first m) + k"
    and "lm_at m (off_index (lm_first m) + k) = Some a \<Longrightarrow> lm_positions m ! k = off_position a"
proof -
  from assms(2) have k: "off_index (lm_first m) + k \<le> off_index (lm_last m)"
    by (simp add: lm_positions_def del: upt_Suc)
  then obtain b where "lm_at m (off_index (lm_first m) + k) = Some b" "off_index b = off_index (lm_first m) + k"
    using lm_at_Some_range [OF assms(1), of "off_index (lm_first m) + k"] by auto
  then show "pos_index (lm_positions m ! k) = off_index (lm_first m) + k"
    "lm_at m (off_index (lm_first m) + k) = Some a \<Longrightarrow> lm_positions m ! k = off_position a"
    using assms(2) k by (simp_all add: lm_positions_def del: upt_Suc)
qed

lemma lm_positions_hd: "lm_wf m \<Longrightarrow> hd (lm_positions m) = off_position (lm_first m)"
  using lm_first_le_last [of m] lm_at_first [of m] by (simp add: lm_positions_def upt_conv_Cons del: upt_Suc)

lemma lm_positions_length:
  "lm_wf m \<Longrightarrow> length (lm_positions m) = Suc (off_index (lm_last m)) - off_index (lm_first m)"
  by (simp add: lm_positions_def del: upt_Suc)

lemma contiguous_lm_positions: "lm_wf m \<Longrightarrow> contiguous (lm_positions m)"
  using lm_positions_index(1) [of m] lm_positions_hd [of m] lm_first_le_last [of m] lm_positions_length [of m]
  by (auto simp: contiguous_def)

lemma lm_append_positions:
  assumes wf: "lm_wf m" and ok: "lm_append m off = Some m'"
  shows "lm_positions m' = spec_append (lm_positions m) (off_position off)"
proof -
  note b = lm_append_SomeD [OF wf ok] and r = lm_append_Some [OF wf ok]
  let ?g = "\<lambda>m i. off_position (the (lm_at m i))" and ?f = "off_index (lm_first m)"
  have "lm_positions m' = map (?g m') [?f..<off_index off] @ [?g m' (off_index off)]"
    using b by (simp add: lm_positions_def r)
  also have "\<dots> = map (?g m) [?f..<off_index off] @ [off_position off]"
    by (simp add: r)
  also have "map (?g m) [?f..<off_index off] = take (off_index off - ?f) (lm_positions m)"
    using b by (simp add: lm_positions_def take_map take_upt del: upt_Suc)
  finally show ?thesis
    by (simp add: spec_append_def contiguous_takeWhile [OF contiguous_lm_positions [OF wf]] lm_positions_hd [OF wf])
qed

lemma lm_discard_positions:
  assumes wf: "lm_wf m" and ok: "lm_discard m p = Some m'" and valid: "valid_discard (lm_positions m) p"
  shows "lm_wf m'" "lm_positions m' = spec_discard (lm_positions m) p"
proof -
  let ?f = "off_index (lm_first m)" and ?l = "off_index (lm_last m)"
  note sd = spec_discard_def contiguous_dropWhile [OF contiguous_lm_positions [OF wf]] lm_positions_hd [OF wf]
  consider "pos_index p \<le> ?f" | "?l < pos_index p" | "?f < pos_index p" "pos_index p \<le> ?l"
    by linarith
  then have "lm_wf m' \<and> lm_positions m' = spec_discard (lm_positions m) p"
  proof cases
    case 1
    have "lm_positions m \<noteq> []" using contiguous_lm_positions [OF wf] by (simp add: contiguous_def)
    then show ?thesis using lm_discard_before [OF wf 1] 1 wf ok unfolding sd
      by (simp split: list.splits)
  next
    case 2
    from lm_discard_beyond [OF this] ok have m': "lm_wf m'" "lm_last m' = lm_first m'" "off_position (lm_first m') = p"
      "lm_at m' (pos_index p) = Some (lm_first m')" by auto
    then have "lm_positions m' = [p]" by (simp add: lm_positions_def)
    moreover have "drop (pos_index p - ?f) (lm_positions m) = []"
      using 2 lm_positions_length [OF wf] by simp
    ultimately show ?thesis using m'(1) unfolding sd by simp
  next
    case 3
    let ?k = "pos_index p - ?f"
    obtain a where a: "lm_at m (pos_index p) = Some a" "off_index a = pos_index p"
      using lm_at_Some_range [OF wf, of "pos_index p"] 3 by auto
    have k: "?k < length (lm_positions m)" using 3 lm_positions_length [OF wf] by simp
    have "lm_positions m ! ?k = off_position a" using lm_positions_index(2) [OF wf k, of a] a 3 by simp
    then have "off_position a = p" using valid k a(2) by (metis nth_mem valid_discard_def)
    with lm_discard_inside [OF wf a(1) _ 3(1)] ok have m': "lm_wf m'" "lm_first m' = a" "lm_last m' = lm_last m"
      "\<And>i. lm_at m' i = (if i < pos_index p then None else lm_at m i)" by auto
    have "lm_positions m' = drop ?k (lm_positions m)"
      using m' a(2) 3 by (simp add: lm_positions_def drop_map drop_upt del: upt_Suc)
    moreover have "drop ?k (lm_positions m) \<noteq> []" using k by simp
    ultimately show ?thesis using m'(1) unfolding sd by (simp split: list.splits)
  qed
  then show "lm_wf m'" "lm_positions m' = spec_discard (lm_positions m) p" by blast+
qed

interpretation lmeta: position_log lm_wf lm_positions lm_step
proof
  show "contiguous (lm_positions s)" if "lm_wf s" for s using that by (rule contiguous_lm_positions)
next
  fix s e q s' assume "lm_wf s" "lm_step s (Append_op e q) = Some s'"
  then show "lm_wf s' \<and> lm_positions s' = spec_append (lm_positions s) (le_pos e)"
    using lm_append_Some(1) lm_append_positions by (fastforce simp: lm_step_def)
next
  fix s p s' assume "lm_wf s" "valid_discard (lm_positions s) p" "lm_step s (Discard_op p) = Some s'"
  then show "lm_wf s' \<and> lm_positions s' = spec_discard (lm_positions s) p"
    using lm_discard_positions [of s p s'] by (simp add: lm_step_def)
qed

lemma lm_lookup_spec:
  assumes "lm_wf m"
  shows "lm_lookup m i = Some r \<Longrightarrow> map_option off_term r = spec_term (lm_positions m) i"
proof -
  assume r: "lm_lookup m i = Some r"
  then have at: "r = lm_at m i" by (simp add: lm_lookup_at [OF assms])
  let ?f = "off_index (lm_first m)"
  note cf = contiguous_find [OF contiguous_lm_positions [OF assms], of i]
    lm_positions_hd [OF assms] lm_positions_length [OF assms]
  show ?thesis
  proof (cases "?f \<le> i \<and> i \<le> off_index (lm_last m)")
    case True
    then obtain a where a: "lm_at m i = Some a" using lm_at_Some_range [OF assms, of i] by auto
    have "lm_positions m ! (i - ?f) = off_position a"
      using lm_positions_index(2) [OF assms, of "i - ?f" a] a True cf(3)
        lm_first_le_last [OF assms] by (simp add: less_diff_conv2)
    then show ?thesis using True a at cf by (simp add: spec_term_def Suc_diff_le le_imp_less_Suc)
  next
    case False
    then show ?thesis using at cf lm_at_None_iff [OF assms, of i] lm_first_le_last [OF assms]
      by (auto simp: spec_term_def)
  qed
qed

section \<open>Waiting for the log to be flushed\<close>

text \<open>
  \<open>FlushConstraint\<close> guards a value with a position and a sequence of the log. \<open>poll\<close> only
  calls \<open>term\<close> and \<open>last_flushed\<close> of the \<open>Log\<close> object it is given; they are its arguments.
\<close>

datatype ('c, 't) constraint_poll = Satisfied 't | Pending 'c | Unsatisfiable

record 't flush_constraint =
  fc_inner :: 't
  fc_point :: "(log_sequence \<times> log_position) option"

definition fc_new :: "'t \<Rightarrow> log_sequence \<Rightarrow> log_position \<Rightarrow> 't flush_constraint" where
  "fc_new inner seq pos = \<lparr>fc_inner = inner, fc_point = Some (seq, pos)\<rparr>"

definition fc_from :: "'t \<Rightarrow> 't flush_constraint" where
  "fc_from v = \<lparr>fc_inner = v, fc_point = None\<rparr>"

definition fc_poll ::
  "'t flush_constraint \<Rightarrow> (log_index \<Rightarrow> raft_term option option) \<Rightarrow> log_sequence
     \<Rightarrow> ('t flush_constraint \<times> log_sequence, 't) constraint_poll option" where
  "fc_poll c log_term last_flushed =
     (case fc_point c of
        None \<Rightarrow> Some (Satisfied (fc_inner c))
      | Some (seq, pos) \<Rightarrow> do {
          t \<leftarrow> log_term (pos_index pos);
          Some (case t of
              Some v \<Rightarrow>
                if v \<noteq> pos_term pos then Unsatisfiable
                else if last_flushed \<ge> seq then Satisfied (fc_inner c)
                else Pending (\<lparr>fc_inner = fc_inner c, fc_point = Some (seq, pos)\<rparr>, seq)
            | None \<Rightarrow> Unsatisfiable)
        })"

lemma fc_poll_memory_log:
  assumes "ml_wf l"
  shows "fc_poll (fc_new x seq pos) (ml_term l) (ml_last_flushed l) = Some
    (if spec_term (ml_positions l) (pos_index pos) \<noteq> Some (pos_term pos) then Unsatisfiable
     else if seq \<le> ml_last_flushed l then Satisfied x
     else Pending (fc_new x seq pos, seq))"
  by (auto simp: fc_poll_def fc_new_def ml_term_spec [OF assms] split: option.splits)

section \<open>Properties\<close>

lemma ml_new_positions: "ml_wf ml_new" "ml_positions ml_new = [zero_position]"
  by (simp_all add: ml_wf_def ml_positions_def ml_new_def contiguous_Cons)

lemma lm_new_positions: "lm_wf lm_new" "lm_positions lm_new = [zero_position]"
  using lm_new_correct by (simp_all add: lm_positions_def zero_offset_def)


definition sample_entry :: "raft_term \<Rightarrow> log_index \<Rightarrow> log_entry" where
  "sample_entry t i = \<lparr>le_pos = new_position t i, le_data = Noop True\<rparr>"

definition sample_ops :: "log_op list" where
  "sample_ops =
     [Append_op (sample_entry 1 1) 1, Append_op (sample_entry 1 2) 2, Append_op (sample_entry 1 3) 3,
      Append_op (sample_entry 2 3) 4, Append_op (sample_entry 2 4) 5, Discard_op (new_position 1 2)]"

definition sample_log :: memory_log where
  "sample_log = \<lparr>ml_prev = new_position 1 2, ml_log = [(sample_entry 2 3, 4), (sample_entry 2 4, 5)]\<rparr>"

lemma sample_log_wf: "ml_wf sample_log"
  by (simp add: ml_wf_def ml_positions_def sample_log_def sample_entry_def contiguous_Cons less_Suc_eq nth_Cons')

definition sample_metadata :: log_metadata where
  "sample_metadata =
     \<lparr>lm_offsets = [\<lparr>off_position = new_position 1 2, off_sequence = 2\<rparr>, \<lparr>off_position = new_position 2 3, off_sequence = 4\<rparr>],
      lm_last_offset = \<lparr>off_position = new_position 2 4, off_sequence = 5\<rparr>\<rparr>"


text \<open>
  C21: What is read back from the memory log. After an append that returned, the entries up
  to the new index are the old ones followed by the new one, with the sequence it was
  appended under, and nothing is stored after it.
\<close>

theorem ml_append_read_back:
  assumes "ml_wf l" "ml_append l e q = Some l'"
  shows "ml_entry l' i =
    (if i = pos_index (le_pos e) then Some (e, q) else if i < pos_index (le_pos e) then ml_entry l i else None)"
proof -
  note r = ml_append_positions [OF assms]
  have "ml_last_index l' = pos_index (le_pos e)"
    using r(3,4) by (simp add: ml_last_index_def r(5,6))
  then show ?thesis using r(3,4)
    by (auto simp: ml_entry_def off_for_eq r(5,6) index_vec_def nth_append ml_last_index_def)
qed

theorem ml_append_read_back_witness:
  "ml_append sample_log (sample_entry 3 4) 6 \<noteq> None
   \<and> map_option (\<lambda>l. ml_entry l 4) (ml_append sample_log (sample_entry 3 4) 6) = Some (Some (sample_entry 3 4, 6))"
proof -
  obtain l' where l': "ml_append sample_log (sample_entry 3 4) 6 = Some l'"
    by (cases "ml_append sample_log (sample_entry 3 4) 6")
      (auto simp: ml_append_def sample_log_def sample_entry_def off_for_def ml_last_index_def)
  from ml_append_read_back [OF sample_log_wf l', of 4] l' show ?thesis by (simp add: sample_entry_def)
qed

text \<open>
  C32: \<open>last_flushed\<close> of the memory log falls back to zero when a discard empties the log,
  although the trait asks for a sequence that never decreases and that a discard leaves alone.
\<close>

theorem ml_discard_resets_flushed:
  assumes "ml_wf l" "ml_log l \<noteq> []" "p = le_pos (fst (last (ml_log l)))"
  shows "\<exists>l'. ml_discard l p = Some (Inr l') \<and> ml_last_flushed l' = 0 \<and> ml_last_flushed l = snd (last (ml_log l))"
proof -
  let ?n = "length (ml_log l)"
  have p: "pos_index p = pos_index (ml_prev l) + ?n" "p = le_pos (fst (ml_log l ! (?n - 1)))"
    using ml_wf_index [OF assms(1), of "?n - 1"] assms(2,3) by (simp_all add: last_conv_nth)
  then show ?thesis using assms(2)
    by (simp add: ml_discard_def off_for_eq ml_last_index_def ml_last_flushed_def zero_sequence_def index_vec_lt)
qed

theorem ml_discard_resets_flushed_witness:
  "ml_last_flushed sample_log = 5
   \<and> (\<exists>l'. ml_discard sample_log (new_position 2 4) = Some (Inr l') \<and> ml_last_flushed l' = 0)"
proof -
  from ml_discard_resets_flushed [OF sample_log_wf _ refl] show ?thesis
    by (auto simp: sample_log_def sample_entry_def)
qed



end
