(* ===== verification/Config_State.thy ===== *)
theory Config_State
  imports Raft_Proto
begin

text \<open>
  \<open>ConfigurationStateMachine\<close> of \<open>pkg/raft/src/consensus/config_state.rs\<close>: the active
  configuration, the index it was last updated at, and the record from which an uncommitted
  change is meant to be rolled back.
\<close>

record config_pending =
  cp_last_change :: log_index
  cp_previous :: configuration

record config_state =
  cs_value :: configuration
  cs_last_applied :: log_index
  cs_pending :: "config_pending option"

definition cs_from :: "configuration_snapshot \<Rightarrow> config_state" where
  "cs_from snapshot =
     \<lparr>cs_value = snap_data snapshot, cs_last_applied = snap_last_applied snapshot, cs_pending = None\<rparr>"

definition cs_apply :: "config_state \<Rightarrow> log_entry \<Rightarrow> log_index \<Rightarrow> config_state" where
  "cs_apply s entry commit =
     (if pos_index (le_pos entry) < cs_last_applied s then s
      else
        let s1 = (case le_data entry of
            Config change \<Rightarrow>
              let s0 = (if pos_index (le_pos entry) < commit
                        then s\<lparr>cs_pending := Some \<lparr>cp_last_change = pos_index (le_pos entry),
                                                   cp_previous = cs_value s\<rparr>\<rparr>
                        else s)
              in s0\<lparr>cs_value := apply_change (cs_value s0) change\<rparr>
          | _ \<Rightarrow> s)
        in s1\<lparr>cs_last_applied := pos_index (le_pos entry)\<rparr>)"

definition cs_revert :: "config_state \<Rightarrow> log_index \<Rightarrow> config_state option" where
  "cs_revert s index = do {
     s1 \<leftarrow> (case cs_pending s of
         Some pending \<Rightarrow>
           Some (if cp_last_change pending \<le> index
                 then s\<lparr>cs_value := cp_previous pending, cs_pending := None\<rparr> else s)
       | None \<Rightarrow> if cs_last_applied s > index then None else Some s);
     Some (s1\<lparr>cs_last_applied := index\<rparr>)
   }"

definition cs_commit :: "config_state \<Rightarrow> log_index \<Rightarrow> config_state \<times> bool" where
  "cs_commit s commit =
     (case cs_pending s of
        Some pending \<Rightarrow> if cp_last_change pending \<le> commit then (s\<lparr>cs_pending := None\<rparr>, True) else (s, False)
      | None \<Rightarrow> (s, False))"

definition cs_snapshot :: "config_state \<Rightarrow> configuration_snapshot option" where
  "cs_snapshot s =
     (case cs_pending s of
        Some pending \<Rightarrow> do {
          i \<leftarrow> sub_u64 (cp_last_change pending) 1;
          Some \<lparr>snap_last_applied = i, snap_data = cp_previous pending\<rparr>
        }
      | None \<Rightarrow> Some \<lparr>snap_last_applied = cs_last_applied s, snap_data = cs_value s\<rparr>)"

section \<open>Well-formedness\<close>

definition cs_wf :: "config_state \<Rightarrow> bool" where
  "cs_wf s \<longleftrightarrow> conf_wf (cs_value s) \<and> (case cs_pending s of None \<Rightarrow> True | Some p \<Rightarrow> conf_wf (cp_previous p))"

lemma cs_wf_from [inv_intros]: "conf_wf (snap_data c) \<Longrightarrow> cs_wf (cs_from c)"
  by (simp add: cs_wf_def cs_from_def)

lemma cs_wf_apply [inv_intros]: "cs_wf s \<Longrightarrow> cs_wf (cs_apply s e c)"
  by (auto simp: cs_wf_def cs_apply_def Let_def conf_wf_apply_change split: log_entry_data.splits option.splits)

lemma cs_wf_revert [inv_intros]: "cs_wf s \<Longrightarrow> cs_revert s i = Some s' \<Longrightarrow> cs_wf s'"
  by (auto simp: cs_wf_def cs_revert_def bind_eq_Some_conv split: option.splits if_splits)

lemma cs_wf_commit [inv_intros]: "cs_wf s \<Longrightarrow> cs_wf (fst (cs_commit s c))"
  by (auto simp: cs_wf_def cs_commit_def split: option.splits)

lemma cs_commit_value [frame_simps]:
  "cs_value (fst (cs_commit s c)) = cs_value s" "cs_last_applied (fst (cs_commit s c)) = cs_last_applied s"
  by (auto simp: cs_commit_def split: option.splits)

lemma cs_apply_last_applied [frame_simps]:
  "cs_last_applied (cs_apply s e c) = max (cs_last_applied s) (pos_index (le_pos e))"
  by (simp add: cs_apply_def Let_def split: log_entry_data.splits)

text \<open>Replaying a log over a configuration: what the module does with its entries when it starts.\<close>

definition conf_replay :: "configuration \<Rightarrow> log_entry list \<Rightarrow> configuration" where
  "conf_replay cfg es =
     fold (\<lambda>e c. case le_data e of Config ch \<Rightarrow> apply_change c ch | _ \<Rightarrow> c) es cfg"

lemma cs_apply_value:
  "cs_last_applied s \<le> pos_index (le_pos e) \<Longrightarrow>
   cs_value (cs_apply s e c) = (case le_data e of Config ch \<Rightarrow> apply_change (cs_value s) ch | _ \<Rightarrow> cs_value s)"
  by (simp add: cs_apply_def Let_def split: log_entry_data.splits)

lemma cs_apply_replay:
  "\<forall>e \<in> set es. cs_last_applied s \<le> pos_index (le_pos e) \<Longrightarrow> sorted_wrt (\<lambda>a b. pos_index (le_pos a) \<le> pos_index (le_pos b)) es \<Longrightarrow>
   cs_value (fold (\<lambda>e s. cs_apply s e c) es s) = conf_replay (cs_value s) es"
  by (induction es arbitrary: s)
    (simp_all add: conf_replay_def cs_apply_value cs_apply_last_applied)

section \<open>Properties\<close>

text \<open>
  C30: An uncommitted configuration change cannot be rolled back. Applying a configuration
  entry that lies at or after the commit index stores no revert record, and truncating the
  log before it panics.
\<close>

theorem uncommitted_change_not_revertible:
  assumes "le_data e = Config ch" "c \<le> pos_index (le_pos e)" "0 < pos_index (le_pos e)"
    and "cs_pending s = None" "cs_last_applied s \<le> pos_index (le_pos e)"
  shows "cs_revert (cs_apply s e c) (pos_index (le_pos e) - 1) = None"
  using assms by (simp add: cs_apply_def cs_revert_def Let_def)

definition sample_conf :: configuration where
  "sample_conf = \<lparr>servers = [\<lparr>srv_id = 1, srv_role = MEMBER\<rparr>, \<lparr>srv_id = 2, srv_role = MEMBER\<rparr>,
     \<lparr>srv_id = 3, srv_role = LEARNER\<rparr>]\<rparr>"

definition sample_config_state :: config_state where
  "sample_config_state = \<lparr>cs_value = sample_conf, cs_last_applied = 4, cs_pending = None\<rparr>"

definition sample_change :: log_entry where
  "sample_change = \<lparr>le_pos = new_position 2 5, le_data = Config (AddMember 3)\<rparr>"

theorem uncommitted_change_not_revertible_witness:
  "cs_revert (cs_apply sample_config_state sample_change 4) 4 = None"
  using uncommitted_change_not_revertible [of sample_change "AddMember 3" 4 sample_config_state]
  by (simp add: sample_change_def sample_config_state_def)

text \<open>
  C31: The snapshot of the configuration, documented to contain only committed entries,
  contains an uncommitted change as soon as that change has been applied.
\<close>

theorem snapshot_has_uncommitted_change:
  assumes "le_data e = Config ch" "c \<le> pos_index (le_pos e)"
    and "cs_pending s = None" "cs_last_applied s \<le> pos_index (le_pos e)"
  shows "cs_snapshot (cs_apply s e c) =
    Some \<lparr>snap_last_applied = pos_index (le_pos e), snap_data = apply_change (cs_value s) ch\<rparr>"
  using assms by (simp add: cs_apply_def cs_snapshot_def Let_def)

theorem snapshot_has_uncommitted_change_witness:
  "cs_snapshot (cs_apply sample_config_state sample_change 4) =
     Some \<lparr>snap_last_applied = 5, snap_data = apply_change sample_conf (AddMember 3)\<rparr>"
  using snapshot_has_uncommitted_change [of sample_change "AddMember 3" 4 sample_config_state]
  by (simp add: sample_change_def sample_config_state_def)

end
