(* ===== verification/Random_Draw.thy ===== *)
theory Random_Draw
  imports Prelude "HOL-Library.Multiset"
begin

text \<open>
  The integer draws of \<open>RngExt\<close> in \<open>pkg/crypto/src/random.rs\<close>. A generator is the sequence
  of the 64-bit words it will produce; every draw takes the next one. What the words are is
  left open, so that a statement about a draw holds for every generator.
\<close>

type_synonym rng = "nat \<Rightarrow> 64 word"

definition uniform_u64 :: "rng \<Rightarrow> nat \<times> rng" where
  "uniform_u64 r = (unat (r 0), r \<circ> Suc)"

definition between_buffer :: "nat \<Rightarrow> nat \<Rightarrow> nat \<Rightarrow> nat option" where
  "between_buffer num lo hi = do {
     _ \<leftarrow> rust_assert (hi \<ge> lo);
     range \<leftarrow> sub_u64 hi lo;
     _ \<leftarrow> rust_assert (range \<noteq> 0);
     Some (num mod range + lo)
   }"

definition between_u64 :: "rng \<Rightarrow> nat \<Rightarrow> nat \<Rightarrow> (nat \<times> rng) option" where
  "between_u64 r lo hi = do {
     let (num, r') = uniform_u64 r;
     v \<leftarrow> between_buffer num lo hi;
     Some (v, r')
   }"

definition swap_at :: "'a list \<Rightarrow> nat \<Rightarrow> nat \<Rightarrow> 'a list" where
  "swap_at xs i j = xs[i := xs ! j, j := xs ! i]"

fun shuffle_from :: "nat \<Rightarrow> nat \<Rightarrow> rng \<Rightarrow> 'a list \<Rightarrow> 'a list \<times> rng" where
  "shuffle_from i 0 r xs = (xs, r)"
| "shuffle_from i (Suc n) r xs =
     (let (v, r') = uniform_u64 r in shuffle_from (Suc i) n r' (swap_at xs i (v mod length xs)))"

definition shuffle_u64 :: "rng \<Rightarrow> 'a list \<Rightarrow> 'a list \<times> rng" where
  "shuffle_u64 r xs = shuffle_from 0 (length xs) r xs"

definition choose_u64 :: "rng \<Rightarrow> 'a list \<Rightarrow> ('a \<times> rng) option" where
  "choose_u64 r xs = do {
     _ \<leftarrow> rust_assert (xs \<noteq> []);
     let (n, r') = uniform_u64 r;
     v \<leftarrow> index_vec xs (n mod length xs);
     Some (v, r')
   }"

section \<open>Range and permutation\<close>

lemma between_u64_lt: "lo < hi \<Longrightarrow> between_u64 r lo hi = Some (unat (r 0) mod (hi - lo) + lo, r \<circ> Suc)"
  by (simp add: between_u64_def uniform_u64_def between_buffer_def sub_u64_le)

lemma between_u64_range: "between_u64 r lo hi = Some (v, r') \<Longrightarrow> lo \<le> v \<and> v < hi"
  by (auto simp: between_u64_def uniform_u64_def between_buffer_def bind_eq_Some_conv
      less_diff_conv [symmetric])

lemma length_swap_at [simp]: "length (swap_at xs i j) = length xs"
  by (simp add: swap_at_def)

lemma mset_swap_at: "i < length xs \<Longrightarrow> j < length xs \<Longrightarrow> mset (swap_at xs i j) = mset xs"
  by (simp add: swap_at_def mset_swap)

lemma mset_shuffle_from:
  "i + n \<le> length xs \<Longrightarrow> mset (fst (shuffle_from i n r xs)) = mset xs"
proof (induction n arbitrary: i r xs)
  case (Suc n)
  let ?xs = "swap_at xs i (unat (r 0) mod length xs)"
  have "mset (fst (shuffle_from (Suc i) n (r \<circ> Suc) ?xs)) = mset ?xs"
    using Suc.prems by (intro Suc.IH) simp
  moreover have "length xs \<noteq> 0" using Suc.prems by auto
  ultimately show ?case
    using Suc.prems mset_swap_at [of i xs "unat (r 0) mod length xs"]
    by (simp add: uniform_u64_def)
qed simp

lemma mset_shuffle [simp]: "mset (fst (shuffle_u64 r xs)) = mset xs"
  by (simp add: shuffle_u64_def mset_shuffle_from)

lemma set_shuffle [simp]: "set (fst (shuffle_u64 r xs)) = set xs"
  by (metis mset_shuffle set_mset_mset)

lemma length_shuffle [simp]: "length (fst (shuffle_u64 r xs)) = length xs"
  by (metis mset_shuffle size_mset)

section \<open>Properties\<close>

text \<open>
  C24: \<open>shuffle\<close> returns a permutation of its input for every generator, \<open>between\<close> stays in
  its half-open range and returns exactly when that range is not empty.
\<close>

theorem shuffle_and_between:
  "mset (fst (shuffle_u64 r xs)) = mset xs
   \<and> (case between_u64 r a b of Some (v, _) \<Rightarrow> a \<le> v \<and> v < b | None \<Rightarrow> b \<le> a)"
proof (cases "between_u64 r a b")
  case None
  then have "b \<le> a" using between_u64_lt [of a b r] by (cases "a < b") auto
  then show ?thesis using None by simp
qed (auto dest: between_u64_range)


end
