(* ===== verification/Consensus_State.thy ===== *)
theory Consensus_State
  imports Memory_Log Config_State Quorum Random_Draw
begin

text \<open>
  The data of the consensus module: the three roles of \<open>consensus/state.rs\<close>, the tick of
  \<open>consensus/tick.rs\<close> through which an operation requests its side effects, the constants,
  the error types and the struct of \<open>consensus/module.rs\<close>, and its constructor.

  An operation of the module is a function from the module and the tick to both of them,
  updated. The tick also carries the generator that \<open>random::clocked_rng\<close> stands for in the
  source.
\<close>

section \<open>Constants\<close>

definition ELECTION_TIMEOUT :: "nat \<times> nat" where
  "ELECTION_TIMEOUT = (400, 800)"

definition HEARTBEAT_INTERVAL :: duration where
  "HEARTBEAT_INTERVAL = from_millis 150"

definition APPEND_ENTRIES_INTERVAL :: duration where
  "APPEND_ENTRIES_INTERVAL = from_millis 500"

text \<open>\<open>CLOCK_DRIFT_BOUND\<close> is the float 2.0; it is only used in \<open>(400.0 / 2.0) as u64\<close>, which is exact.\<close>

definition CLOCK_DRIFT_BOUND :: nat where
  "CLOCK_DRIFT_BOUND = 2"

definition drift_window :: duration where
  "drift_window = from_millis (int (fst ELECTION_TIMEOUT div CLOCK_DRIFT_BOUND))"

definition ROUND_TARGET_DURATION :: duration where
  "ROUND_TARGET_DURATION = from_millis 200"

definition SYNCHRONIZED_ROUNDS_THRESHOLD :: nat where
  "SYNCHRONIZED_ROUNDS_THRESHOLD = 4"

definition MAX_IN_FLIGHT_REQUESTS :: nat where
  "MAX_IN_FLIGHT_REQUESTS = 32"

definition MAX_ENTRIES_PER_LIVE_APPEND :: nat where
  "MAX_ENTRIES_PER_LIVE_APPEND = 32"

definition MAX_ENTRIES_PER_PESSIMISTIC_APPEND :: nat where
  "MAX_ENTRIES_PER_PESSIMISTIC_APPEND = 4"

definition MIN_PESSIMISTIC_APPEND_INTERVAL :: duration where
  "MIN_PESSIMISTIC_APPEND_INTERVAL = from_millis 50"

definition MAX_COMMAND_SIZE :: nat where
  "MAX_COMMAND_SIZE = 4 * 1024 * 1024"

definition TIMEOUT_NOW_DEADLINE :: duration where
  "TIMEOUT_NOW_DEADLINE = from_secs 1"

definition TIMEOUT_NOW_SEND_MAX_QUEUE_LENGTH :: nat where
  "TIMEOUT_NOW_SEND_MAX_QUEUE_LENGTH = 4"

section \<open>The three roles\<close>

record follower_state =
  fo_election_timeout :: duration
  fo_last_leader_id :: "server_id option"
  fo_last_heartbeat :: instant

record candidate_state =
  ca_attempt_number :: nat
  ca_election_start :: instant
  ca_election_timeout :: duration
  ca_vote_request_id :: request_id
  ca_pre_votes_received :: "server_id list"
  ca_main_vote_start :: "instant option"
  ca_votes_received :: "server_id list"
  ca_some_rejected :: bool
  ca_leader_approval :: "raft_term option"

datatype follower_mode = Live | Pesimistic | CatchingUp | InstallingSnapshot

record pending_append =
  pa_start_time :: instant
  pa_prev_log_index :: log_index
  pa_last_index_sent :: log_index

record follower_progress =
  pr_mode :: follower_mode
  pr_next_index :: log_index
  pr_match_index :: log_index
  pr_lease_start :: "instant option"
  pr_last_heartbeat_sent :: "instant option"
  pr_last_append_entries_sent :: "instant option"
  pr_last_commit_index_sent :: log_index
  pr_pending_heartbeats :: "(request_id \<times> instant) list"
  pr_pending_appends :: "(request_id \<times> pending_append) list"
  pr_successful_rounds :: nat
  pr_round_start :: "(log_index \<times> instant) option"

record leader_state =
  ld_followers :: "(server_id \<times> follower_progress) list"
  ld_min_read_index :: log_index
  ld_lease_start :: instant
  ld_heartbeat_now :: bool

datatype consensus_state = Follower follower_state | Candidate candidate_state | Leader leader_state

definition progress_new :: "log_index \<Rightarrow> follower_progress" where
  "progress_new last_log_index =
     \<lparr>pr_mode = Pesimistic, pr_next_index = last_log_index + 1, pr_match_index = 0, pr_lease_start = None,
      pr_last_heartbeat_sent = None, pr_last_append_entries_sent = None, pr_last_commit_index_sent = 0,
      pr_pending_heartbeats = [], pr_pending_appends = [], pr_successful_rounds = 0, pr_round_start = None\<rparr>"

section \<open>Ticks and messages\<close>

datatype consensus_message_body =
    PreVote request_vote_request
  | RequestVote request_vote_request
  | Heartbeat heartbeat_request
  | AppendEntries append_entries_request log_index log_sequence
  | InstallSnapshot install_snapshot_request

record consensus_message =
  msg_request_id :: request_id
  msg_to :: "server_id list"
  msg_body :: consensus_message_body

record new_log_entry =
  ne_sequence :: log_sequence
  ne_entry :: log_entry

record tick =
  tk_time :: instant
  tk_meta :: bool
  tk_config :: bool
  tk_new_entries :: "new_log_entry list"
  tk_messages :: "consensus_message list"
  tk_next_tick :: "duration option"
  tk_rng :: rng

definition tick_empty :: "instant \<Rightarrow> rng \<Rightarrow> tick" where
  "tick_empty now r = \<lparr>tk_time = now, tk_meta = False, tk_config = False, tk_new_entries = [],
     tk_messages = [], tk_next_tick = None, tk_rng = r\<rparr>"

definition write_meta :: "tick \<Rightarrow> tick" where
  "write_meta t = t\<lparr>tk_meta := True\<rparr>"

definition write_config :: "tick \<Rightarrow> tick" where
  "write_config t = t\<lparr>tk_config := True\<rparr>"

definition send_msg :: "consensus_message \<Rightarrow> tick \<Rightarrow> tick" where
  "send_msg m t = t\<lparr>tk_messages := tk_messages t @ [m]\<rparr>"

section \<open>Results of the module's operations\<close>

type_synonym proposal = log_position

datatype propose_error =
    RetryAfter proposal
  | ReadIndexTainted
  | NotLeader
  | PendingElection
  | RejectedConfigChange
  | CommandTooLarge
  | Draining

datatype proposal_status = PS_Commited | PS_Failed | PS_Pending | PS_Missing | PS_Unavailable

record read_index =
  ri_term :: raft_term
  ri_time :: instant
  ri_index :: log_index

datatype read_index_error =
    RI_StaleIndex
  | RI_PendingElection
  | RI_NotLeader
  | RI_RetryAfter log_position
  | RI_WaitForLease instant

section \<open>The module\<close>

record draining_state =
  dr_term :: raft_term
  dr_next_leader :: "(server_id \<times> instant) option"

record cmodule =
  cm_id :: server_id
  cm_meta :: metadata
  cm_persisted_meta :: metadata
  cm_log_meta :: log_metadata
  cm_log_last_flushed :: log_sequence
  cm_config :: config_state
  cm_state :: consensus_state
  cm_draining :: "draining_state option"
  cm_pending_conflict :: "log_sequence option"
  cm_pending_commit_index :: "log_index option"
  cm_last_request_id :: request_id

abbreviation cm_term :: "cmodule \<Rightarrow> raft_term" where
  "cm_term s \<equiv> current_term (cm_meta s)"

abbreviation cm_voted_for :: "cmodule \<Rightarrow> server_id" where
  "cm_voted_for s \<equiv> voted_for (cm_meta s)"

abbreviation cm_commit_index :: "cmodule \<Rightarrow> log_index" where
  "cm_commit_index s \<equiv> commit_index (cm_meta s)"

abbreviation cm_conf :: "cmodule \<Rightarrow> configuration" where
  "cm_conf s \<equiv> cs_value (cm_config s)"

abbreviation cm_last_pos :: "cmodule \<Rightarrow> log_position" where
  "cm_last_pos s \<equiv> off_position (lm_last (cm_log_meta s))"

abbreviation cm_last_index :: "cmodule \<Rightarrow> log_index" where
  "cm_last_index s \<equiv> pos_index (cm_last_pos s)"

type_synonym handler = "cmodule \<Rightarrow> tick \<Rightarrow> (cmodule \<times> tick) option"

definition is_leader :: "consensus_state \<Rightarrow> bool" where
  "is_leader st = (case st of Leader _ \<Rightarrow> True | _ \<Rightarrow> False)"

definition is_follower :: "consensus_state \<Rightarrow> bool" where
  "is_follower st = (case st of Follower _ \<Rightarrow> True | _ \<Rightarrow> False)"

definition is_candidate :: "consensus_state \<Rightarrow> bool" where
  "is_candidate st = (case st of Candidate _ \<Rightarrow> True | _ \<Rightarrow> False)"

lemma role_tests [simp]:
  "is_leader (Leader l)" "\<not> is_leader (Follower f)" "\<not> is_leader (Candidate c)"
  "is_follower (Follower f)" "\<not> is_follower (Leader l)" "\<not> is_follower (Candidate c)"
  "is_candidate (Candidate c)" "\<not> is_candidate (Leader l)" "\<not> is_candidate (Follower f)"
  by (simp_all add: is_leader_def is_follower_def is_candidate_def)

definition new_election_timeout :: "rng \<Rightarrow> (duration \<times> rng) option" where
  "new_election_timeout r = do {
     (time, r') \<leftarrow> between_u64 r (fst ELECTION_TIMEOUT) (snd ELECTION_TIMEOUT);
     Some (from_millis (int time), r')
   }"

definition new_follower :: "instant \<Rightarrow> rng \<Rightarrow> (consensus_state \<times> rng) option" where
  "new_follower now r = do {
     (timeout, r') \<leftarrow> new_election_timeout r;
     Some (Follower \<lparr>fo_election_timeout = timeout, fo_last_leader_id = None, fo_last_heartbeat = now\<rparr>, r')
   }"

text \<open>
  The constructor reads the whole log. The parameter of type \<open>dyn Log\<close> is a memory log.
\<close>

fun load_log_meta :: "memory_log \<Rightarrow> log_index list \<Rightarrow> log_metadata \<Rightarrow> log_metadata option" where
  "load_log_meta log [] m = Some m"
| "load_log_meta log (i # is) m = do {
     (entry, sequence) \<leftarrow> ml_entry log i;
     m' \<leftarrow> lm_append m \<lparr>off_position = le_pos entry, off_sequence = sequence\<rparr>;
     load_log_meta log is m'
   }"

fun load_config :: "memory_log \<Rightarrow> log_index \<Rightarrow> log_index list \<Rightarrow> config_state \<Rightarrow> config_state option" where
  "load_config log commit [] c = Some c"
| "load_config log commit (i # is) c = do {
     (e, _) \<leftarrow> ml_entry log i;
     load_config log commit is (cs_apply c e commit)
   }"

definition cm_new ::
  "server_id \<Rightarrow> metadata \<Rightarrow> configuration_snapshot \<Rightarrow> memory_log \<Rightarrow> instant \<Rightarrow> rng \<Rightarrow> (cmodule \<times> rng) option" where
  "cm_new sid meta config_snapshot log time r = do {
     log_meta \<leftarrow> lm_discard lm_new (ml_prev log);
     log_meta \<leftarrow> load_log_meta log [pos_index (ml_prev log) + 1..<ml_last_index log + 1] log_meta;
     last_log_term \<leftarrow> ml_term log (ml_last_index log);
     last_log_term \<leftarrow> last_log_term;
     let meta = (if last_log_term > current_term meta
                 then meta\<lparr>current_term := last_log_term, voted_for := 0\<rparr> else meta);
     _ \<leftarrow> rust_assert (\<not> snap_last_applied config_snapshot < pos_index (ml_prev log));
     let config = cs_from config_snapshot;
     config \<leftarrow> load_config log (commit_index meta) [cs_last_applied config + 1..<ml_last_index log + 1] config;
     let (config, _) = cs_commit config (commit_index meta);
     (st, r') \<leftarrow> new_follower time r;
     Some (\<lparr>cm_id = sid, cm_meta = meta, cm_persisted_meta = meta, cm_log_meta = log_meta,
            cm_log_last_flushed = ml_last_flushed log, cm_config = config, cm_state = st,
            cm_draining = None, cm_pending_conflict = None, cm_pending_commit_index = None,
            cm_last_request_id = 0\<rparr>, r')
   }"

section \<open>Timeouts\<close>

lemma new_election_timeout_eq:
  "new_election_timeout r = Some (from_millis (int (unat (r 0) mod 400 + 400)), r \<circ> Suc)"
  by (simp add: new_election_timeout_def ELECTION_TIMEOUT_def between_u64_lt)

lemma new_follower_eq:
  "new_follower now r = Some
     (Follower \<lparr>fo_election_timeout = from_millis (int (unat (r 0) mod 400 + 400)),
        fo_last_leader_id = None, fo_last_heartbeat = now\<rparr>, r \<circ> Suc)"
  by (simp add: new_follower_def new_election_timeout_eq)

lemma new_election_timeout_range:
  assumes "new_election_timeout r = Some (d, r')"
  shows "from_millis 400 \<le> d \<and> d < from_millis 800"
proof -
  define n where "n = unat (r 0) mod 400"
  have "d = from_millis (int (n + 400))"
    using assms by (simp add: new_election_timeout_eq n_def)
  moreover have "n < 400" by (simp add: n_def)
  ultimately show ?thesis by (auto simp: from_millis_def)
qed

end
