(* ===== verification/Consensus_Leader.thy ===== *)
theory Consensus_Leader
  imports Consensus_State "HOL-Library.Product_Lexorder"
begin

text \<open>
  What a leader computes and sends in one round of \<open>cycle\<close> in \<open>consensus/module.rs\<close>: the
  next commit index and lease from the progress of its followers, the heartbeats, the
  AppendEntries and InstallSnapshot requests of \<open>replicate_entries\<close>, and the successor it
  picks while draining.
\<close>

section \<open>Definitions\<close>

definition can_be_leader :: "cmodule \<Rightarrow> bool" where
  "can_be_leader s \<longleftrightarrow> server_role (cm_conf s) (cm_id s) = MEMBER \<and> cm_last_index s \<ge> cm_commit_index s"

definition is_follower_synchronized :: "follower_progress \<Rightarrow> bool" where
  "is_follower_synchronized p \<longleftrightarrow> pr_mode p = Live \<and> pr_successful_rounds p \<ge> SYNCHRONIZED_ROUNDS_THRESHOLD"

definition cm_majority :: "cmodule \<Rightarrow> nat" where
  "cm_majority s = majority_size (cm_conf s)"

subsection \<open>Commit index and lease\<close>

definition server_match_index :: "cmodule \<Rightarrow> leader_state \<Rightarrow> server_id \<Rightarrow> log_index option" where
  "server_match_index s l sid =
     (if sid = cm_id s then do {
        off \<leftarrow> lm_lookup_seq (cm_log_meta s) (cm_log_last_flushed s);
        Some (case off of Some off \<Rightarrow> off_index off | None \<Rightarrow> 0)
      }
      else Some (case map_of (ld_followers l) sid of Some p \<Rightarrow> pr_match_index p | None \<Rightarrow> 0))"

fun collect_match_indexes :: "cmodule \<Rightarrow> leader_state \<Rightarrow> conf_server list \<Rightarrow> log_index list option" where
  "collect_match_indexes s l [] = Some []"
| "collect_match_indexes s l (v # vs) =
     (if srv_role v \<noteq> MEMBER then collect_match_indexes s l vs
      else do {
        i \<leftarrow> server_match_index s l (srv_id v);
        is \<leftarrow> collect_match_indexes s l vs;
        Some (i # is)
      })"

definition find_next_commit_index :: "cmodule \<Rightarrow> leader_state \<Rightarrow> log_index option option" where
  "find_next_commit_index s l =
     (if cm_last_index s = cm_commit_index s then Some None
      else do {
        match_indexes \<leftarrow> collect_match_indexes s l (servers (cm_conf s));
        m \<leftarrow> sub_u64 (cm_majority s) 1;
        candidate_index \<leftarrow> index_vec (rev (sort match_indexes)) m;
        if candidate_index \<le> cm_commit_index s then Some None
        else do {
          off \<leftarrow> lm_lookup (cm_log_meta s) candidate_index;
          Some (case off of
              None \<Rightarrow> None
            | Some off \<Rightarrow> if off_term off \<noteq> cm_term s then None else Some candidate_index)
        }
      })"

definition lease_start_times :: "cmodule \<Rightarrow> leader_state \<Rightarrow> instant list" where
  "lease_start_times s l =
     List.map_filter (\<lambda>(fid, p). if server_role (cm_conf s) fid \<noteq> MEMBER then None else pr_lease_start p)
       (ld_followers l)"

definition find_next_lease_start :: "cmodule \<Rightarrow> leader_state \<Rightarrow> instant \<Rightarrow> instant option" where
  "find_next_lease_start s l now = do {
     majority \<leftarrow> (if server_role (cm_conf s) (cm_id s) = MEMBER
                  then sub_u64 (cm_majority s) 1 else Some (cm_majority s));
     if majority = 0 then Some now
     else
       let times = lease_start_times s l
       in if length times < majority then Some (ld_lease_start l)
          else do {
            candidate_time \<leftarrow> index_vec (rev (sort times)) (majority - 1);
            Some (if candidate_time < ld_lease_start l then ld_lease_start l else candidate_time)
          }
   }"

definition mem_commit_index :: "cmodule \<Rightarrow> log_index" where
  "mem_commit_index s = (case cm_pending_commit_index s of Some v \<Rightarrow> v | None \<Rightarrow> cm_commit_index s)"

text \<open>\<open>resolve_conflict\<close> gives \<^term>\<open>None\<close> while the conflict is not flushed yet; this is not a panic.\<close>

definition resolve_conflict :: "cmodule \<Rightarrow> cmodule option" where
  "resolve_conflict s = (case cm_pending_conflict s of
      None \<Rightarrow> Some s
    | Some c \<Rightarrow> if cm_log_last_flushed s \<ge> c then Some (s\<lparr>cm_pending_conflict := None\<rparr>) else None)"

definition update_commited :: "log_index \<Rightarrow> handler" where
  "update_commited index s t = do {
     _ \<leftarrow> rust_assert (index > mem_commit_index s);
     case resolve_conflict s of
       None \<Rightarrow> Some (s\<lparr>cm_pending_commit_index := Some index\<rparr>, t)
     | Some s1 \<Rightarrow>
         let (s2, t2) = (if index > cm_commit_index s1
                         then (s1\<lparr>cm_meta := (cm_meta s1)\<lparr>commit_index := index\<rparr>\<rparr>, write_meta t) else (s1, t));
             (config, changed) = cs_commit (cm_config s2) (cm_commit_index s2)
         in Some (s2\<lparr>cm_config := config\<rparr>, if changed then write_config t2 else t2)
   }"

definition update_lease_start :: "instant \<Rightarrow> cmodule \<Rightarrow> cmodule option" where
  "update_lease_start new_time s = (case cm_state s of
      Leader l \<Rightarrow> Some (s\<lparr>cm_state := Leader (l\<lparr>ld_lease_start := new_time\<rparr>)\<rparr>)
    | _ \<Rightarrow> None)"

definition expire_round :: "instant \<Rightarrow> follower_progress \<Rightarrow> follower_progress" where
  "expire_round now p = (case pr_round_start p of
      Some (_, start) \<Rightarrow>
        if start + ROUND_TARGET_DURATION \<le> now then p\<lparr>pr_round_start := None, pr_successful_rounds := 0\<rparr> else p
    | None \<Rightarrow> p)"

definition expire_rounds :: "instant \<Rightarrow> cmodule \<Rightarrow> cmodule option" where
  "expire_rounds now s = (case cm_state s of
      Leader l \<Rightarrow> Some (s\<lparr>cm_state :=
        Leader (l\<lparr>ld_followers := map (\<lambda>(k, p). (k, expire_round now p)) (ld_followers l)\<rparr>)\<rparr>)
    | _ \<Rightarrow> None)"

subsection \<open>Heartbeats\<close>

definition ensure_progress ::
  "(server_id \<times> follower_progress) list \<Rightarrow> server_id \<Rightarrow> log_index \<Rightarrow> (server_id \<times> follower_progress) list" where
  "ensure_progress fs sid last_log_index =
     (if map_of fs sid = None then AList.update sid (progress_new last_log_index) fs else fs)"

record heartbeat_round =
  hr_followers :: "(server_id \<times> follower_progress) list"
  hr_to_ids :: "server_id list"
  hr_next_time :: instant

definition next_follower_heartbeat :: "instant \<Rightarrow> follower_progress \<Rightarrow> instant" where
  "next_follower_heartbeat now p =
     max (case pr_lease_start p of Some v \<Rightarrow> v + HEARTBEAT_INTERVAL | None \<Rightarrow> now)
         (case pr_last_heartbeat_sent p of Some v \<Rightarrow> v + HEARTBEAT_INTERVAL | None \<Rightarrow> now)"

definition heartbeat_server ::
  "server_id \<Rightarrow> log_index \<Rightarrow> instant \<Rightarrow> bool \<Rightarrow> request_id \<Rightarrow> conf_server \<Rightarrow> heartbeat_round \<Rightarrow> heartbeat_round option" where
  "heartbeat_server leader_id last_log_index now heartbeat_now request_id server h =
     (if srv_id server = leader_id then Some h
      else do {
        let fs = ensure_progress (hr_followers h) (srv_id server) last_log_index;
        progress \<leftarrow> map_of fs (srv_id server);
        if length (pr_pending_heartbeats progress) \<ge> MAX_IN_FLIGHT_REQUESTS then Some (h\<lparr>hr_followers := fs\<rparr>)
        else
          let next = next_follower_heartbeat now progress
          in if now \<ge> next \<or> heartbeat_now
             then Some (h\<lparr>hr_followers := AList.update (srv_id server)
                            (progress\<lparr>pr_last_heartbeat_sent := Some now,
                               pr_pending_heartbeats := AList.update request_id now (pr_pending_heartbeats progress)\<rparr>) fs,
                          hr_to_ids := hr_to_ids h @ [srv_id server],
                          hr_next_time := min (hr_next_time h) (now + HEARTBEAT_INTERVAL)\<rparr>)
             else Some (h\<lparr>hr_followers := fs, hr_next_time := min (hr_next_time h) next\<rparr>)
      })"

fun heartbeat_servers ::
  "(conf_server \<Rightarrow> heartbeat_round \<Rightarrow> heartbeat_round option) \<Rightarrow> conf_server list \<Rightarrow> heartbeat_round \<Rightarrow> heartbeat_round option" where
  "heartbeat_servers f [] h = Some h"
| "heartbeat_servers f (v # vs) h = do { h' \<leftarrow> f v h; heartbeat_servers f vs h' }"

definition send_heartbeats :: "cmodule \<Rightarrow> tick \<Rightarrow> (cmodule \<times> tick \<times> instant) option" where
  "send_heartbeats s t = (case cm_state s of
      Leader l \<Rightarrow> do {
        let request_id = cm_last_request_id s + 1;
        h \<leftarrow> heartbeat_servers
               (heartbeat_server (cm_id s) (cm_last_index s) (tk_time t) (ld_heartbeat_now l) request_id)
               (servers (cm_conf s))
               \<lparr>hr_followers = ld_followers l, hr_to_ids = [], hr_next_time = tk_time t + HEARTBEAT_INTERVAL\<rparr>;
        let s1 = s\<lparr>cm_state := Leader (l\<lparr>ld_heartbeat_now := False, ld_followers := hr_followers h\<rparr>)\<rparr>;
        if hr_to_ids h = [] then Some (s1, t, hr_next_time h)
        else Some (s1\<lparr>cm_last_request_id := request_id\<rparr>,
                   send_msg \<lparr>msg_request_id = request_id, msg_to = hr_to_ids h,
                     msg_body = Heartbeat \<lparr>hbq_term = cm_term s, hbq_leader_id = cm_id s\<rparr>\<rparr> t,
                   hr_next_time h)
      }
    | _ \<Rightarrow> None)"

subsection \<open>Choosing a successor\<close>

definition timeout_now_candidates :: "cmodule \<Rightarrow> leader_state \<Rightarrow> server_id list" where
  "timeout_now_candidates s l =
     map srv_id (filter (\<lambda>v. \<not> (srv_id v = cm_id s \<or> srv_role v \<noteq> MEMBER)
         \<and> (case map_of (ld_followers l) (srv_id v) of Some p \<Rightarrow> is_follower_synchronized p | None \<Rightarrow> False))
       (servers (cm_conf s)))"

definition pick_timeout_now_server_id :: "cmodule \<Rightarrow> instant \<Rightarrow> rng \<Rightarrow> (server_id option \<times> rng) option" where
  "pick_timeout_now_server_id s now r =
     (case cm_state s of
        Leader l \<Rightarrow>
          (case cm_draining s of
             None \<Rightarrow> Some (None, r)
           | Some draining \<Rightarrow>
               if (case dr_next_leader draining of Some (_, last_time) \<Rightarrow> last_time + TIMEOUT_NOW_DEADLINE \<ge> now | None \<Rightarrow> False)
               then Some (None, r)
               else
                 let candidates = timeout_now_candidates s l
                 in if candidates = [] then Some (None, r)
                    else do {
                      let (candidates, r') = shuffle_u64 r candidates;
                      first \<leftarrow> index_vec candidates 0;
                      Some (Some first, r')
                    })
      | _ \<Rightarrow> Some (None, r))"

subsection \<open>Replication\<close>

text \<open>
  The variables of the loop in \<open>replicate_entries\<close>. The \<open>BTreeMap\<close> of outgoing messages is an
  association list that is sorted by key when it is drained.
\<close>

type_synonym message_key = "log_index \<times> log_index \<times> bool"

record replication =
  rp_followers :: "(server_id \<times> follower_progress) list"
  rp_message_map :: "(message_key \<times> consensus_message) list"
  rp_install_snapshot_ids :: "server_id list"
  rp_next_send_time :: instant
  rp_timeout_now_id :: "server_id option"
  rp_draining :: "draining_state option"
  rp_last_request_id :: request_id

text \<open>Flow control: the size limit of the next request, or nothing when none may be sent.\<close>

definition max_entries_per_request :: "follower_progress \<Rightarrow> nat option" where
  "max_entries_per_request p = (case pr_mode p of
      Live \<Rightarrow> if length (pr_pending_appends p) \<ge> MAX_IN_FLIGHT_REQUESTS then None else Some MAX_ENTRIES_PER_LIVE_APPEND
    | Pesimistic \<Rightarrow> if length (pr_pending_appends p) > 0 then None else Some MAX_ENTRIES_PER_PESSIMISTIC_APPEND
    | CatchingUp \<Rightarrow> if length (pr_pending_appends p) > 0 then None else Some MAX_ENTRIES_PER_PESSIMISTIC_APPEND
    | InstallingSnapshot \<Rightarrow> None)"

definition append_interval_elapsed :: "instant \<Rightarrow> follower_progress \<Rightarrow> bool" where
  "append_interval_elapsed now p = (case pr_last_append_entries_sent p of
      Some t \<Rightarrow> t + APPEND_ENTRIES_INTERVAL \<le> now | None \<Rightarrow> True)"

definition wait_append_interval :: "instant \<Rightarrow> follower_progress \<Rightarrow> instant \<Rightarrow> instant" where
  "wait_append_interval now p next_send_time = (case pr_last_append_entries_sent p of
      Some t \<Rightarrow> if t + APPEND_ENTRIES_INTERVAL \<le> now then next_send_time
                else min (t + APPEND_ENTRIES_INTERVAL) next_send_time
    | None \<Rightarrow> next_send_time)"

definition pessimistic_wait :: "instant \<Rightarrow> follower_progress \<Rightarrow> instant option" where
  "pessimistic_wait now p =
     (if pr_mode p \<noteq> Live then
        (case pr_last_append_entries_sent p of
           Some last_time \<Rightarrow>
             if now < last_time + MIN_PESSIMISTIC_APPEND_INTERVAL
             then Some (last_time + MIN_PESSIMISTIC_APPEND_INTERVAL) else None
         | None \<Rightarrow> None)
      else None)"

definition mark_sent :: "cmodule \<Rightarrow> instant \<Rightarrow> log_index \<Rightarrow> follower_progress \<Rightarrow> follower_progress" where
  "mark_sent s now last_log_index p =
     p\<lparr>pr_last_append_entries_sent := Some now, pr_last_commit_index_sent := cm_commit_index s,
       pr_round_start := (case pr_round_start p of None \<Rightarrow> Some (cm_last_index s, now) | Some r \<Rightarrow> Some r),
       pr_next_index := last_log_index + 1\<rparr>"

definition enter_snapshot :: "follower_progress \<Rightarrow> follower_progress" where
  "enter_snapshot p = p\<lparr>pr_mode := InstallingSnapshot, pr_pending_appends := []\<rparr>"

definition record_append ::
  "request_id \<Rightarrow> instant \<Rightarrow> log_index \<Rightarrow> log_index \<Rightarrow> follower_progress \<Rightarrow> follower_progress option" where
  "record_append request_id now prev_log_index last_log_index p = do {
     _ \<leftarrow> rust_assert (map_of (pr_pending_appends p) request_id = None);
     Some (p\<lparr>pr_pending_appends := AList.update request_id
        \<lparr>pa_start_time = now, pa_prev_log_index = prev_log_index, pa_last_index_sent = last_log_index\<rparr>
        (pr_pending_appends p)\<rparr>)
   }"

definition append_message ::
  "cmodule \<Rightarrow> request_id \<Rightarrow> server_id \<Rightarrow> log_index \<Rightarrow> raft_term \<Rightarrow> bool \<Rightarrow> log_index \<Rightarrow> log_sequence \<Rightarrow> consensus_message" where
  "append_message s request_id sid prev_log_index prev_log_term timeout_now last_log_index last_log_sequence =
     \<lparr>msg_request_id = request_id, msg_to = [sid],
      msg_body = AppendEntries
        \<lparr>aeq_term = cm_term s, aeq_leader_id = cm_id s, aeq_prev_log_index = prev_log_index,
         aeq_prev_log_term = prev_log_term, aeq_entries = [], aeq_leader_commit = cm_commit_index s,
         aeq_timeout_now = timeout_now\<rparr>
        last_log_index last_log_sequence\<rparr>"

text \<open>
  The second half of an iteration: the request is certain to be made. The result tells
  whether the loop goes on with the next server.
\<close>

definition replicate_send ::
  "cmodule \<Rightarrow> instant \<Rightarrow> server_id \<Rightarrow> follower_progress \<Rightarrow> log_index \<Rightarrow> log_index \<Rightarrow> bool
     \<Rightarrow> replication \<Rightarrow> (replication \<times> bool) option" where
  "replicate_send s now sid progress prev_log_index last_log_index timeout_now r = do {
     let progress = mark_sent s now last_log_index progress;
     r \<leftarrow> (if timeout_now
            then do { d \<leftarrow> rp_draining r;
                      Some (r\<lparr>rp_timeout_now_id := None, rp_draining := Some (d\<lparr>dr_next_leader := Some (sid, now)\<rparr>)\<rparr>) }
            else Some r);
     let key = (prev_log_index, last_log_index, timeout_now);
     case map_of (rp_message_map r) key of
       Some msg \<Rightarrow> do {
         progress' \<leftarrow> record_append (msg_request_id msg) now prev_log_index last_log_index progress;
         Some (r\<lparr>rp_message_map := AList.update key (msg\<lparr>msg_to := msg_to msg @ [sid]\<rparr>) (rp_message_map r),
                 rp_followers := AList.update sid progress' (rp_followers r)\<rparr>, False)
       }
     | None \<Rightarrow> do {
         prev_off \<leftarrow> lm_lookup (cm_log_meta s) prev_log_index;
         case prev_off of
           None \<Rightarrow> Some (r\<lparr>rp_install_snapshot_ids := rp_install_snapshot_ids r @ [sid],
                           rp_followers := AList.update sid (enter_snapshot progress) (rp_followers r)\<rparr>, True)
         | Some prev_off \<Rightarrow> do {
             last_off \<leftarrow> lm_lookup (cm_log_meta s) last_log_index;
             last_off \<leftarrow> last_off;
             let request_id = rp_last_request_id r + 1;
             let msg = append_message s request_id sid prev_log_index (off_term prev_off) timeout_now
                         last_log_index (off_sequence last_off);
             progress' \<leftarrow> record_append request_id now prev_log_index last_log_index progress;
             Some (r\<lparr>rp_last_request_id := request_id,
                     rp_message_map := AList.update key msg (rp_message_map r),
                     rp_followers := AList.update sid progress' (rp_followers r)\<rparr>, False)
           }
       }
   }"

definition can_send_timeout_now :: "cmodule \<Rightarrow> server_id \<Rightarrow> follower_progress \<Rightarrow> log_index \<Rightarrow> log_index \<Rightarrow> server_id option \<Rightarrow> bool" where
  "can_send_timeout_now s sid p prev_log_index last_log_index timeout_now_id \<longleftrightarrow>
     prev_log_index = cm_last_index s \<and> cm_last_index s = last_log_index \<and> timeout_now_id = Some sid
     \<and> length (pr_pending_appends p) \<le> TIMEOUT_NOW_SEND_MAX_QUEUE_LENGTH"

definition replicate_server :: "cmodule \<Rightarrow> instant \<Rightarrow> conf_server \<Rightarrow> replication \<Rightarrow> (replication \<times> bool) option" where
  "replicate_server s now server r0 =
     (if srv_id server = cm_id s then Some (r0, True)
      else do {
        let sid = srv_id server;
        let r = r0\<lparr>rp_followers := ensure_progress (rp_followers r0) sid (cm_last_index s)\<rparr>;
        progress \<leftarrow> map_of (rp_followers r) sid;
        case max_entries_per_request progress of
          None \<Rightarrow> Some (r, True)
        | Some max_entries \<Rightarrow> do {
            prev_log_index \<leftarrow> sub_u64 (pr_next_index progress) 1;
            let last_log_index = min (prev_log_index + (1 + max_entries)) (cm_last_index s);
            let timeout_now = can_send_timeout_now s sid progress prev_log_index last_log_index (rp_timeout_now_id r);
            let r = r\<lparr>rp_next_send_time := wait_append_interval now progress (rp_next_send_time r)\<rparr>;
            if \<not> (append_interval_elapsed now progress \<or> pr_next_index progress \<le> cm_last_index s
                   \<or> pr_last_commit_index_sent progress < cm_commit_index s \<or> timeout_now)
            then Some (r, True)
            else case pessimistic_wait now progress of
              Some next_allowed \<Rightarrow> Some (r\<lparr>rp_next_send_time := min next_allowed (rp_next_send_time r)\<rparr>, True)
            | None \<Rightarrow> replicate_send s now sid progress prev_log_index last_log_index timeout_now r
          }
      })"

text \<open>
  The first argument counts the iterations that the loop's own assertion
  \<open>num_iterations < 10_000\<close> still allows.
\<close>

fun replicate_loop :: "nat \<Rightarrow> cmodule \<Rightarrow> instant \<Rightarrow> conf_server list \<Rightarrow> replication \<Rightarrow> replication option" where
  "replicate_loop n s now [] r = Some r"
| "replicate_loop 0 s now (server # rest) r = None"
| "replicate_loop (Suc n) s now (server # rest) r = do {
     (r', advance) \<leftarrow> replicate_server s now server r;
     replicate_loop n s now (if advance then rest else server # rest) r'
   }"

definition drain_messages :: "(message_key \<times> consensus_message) list \<Rightarrow> consensus_message list" where
  "drain_messages m = map snd (sort_key fst m)"

definition send_install_snapshot :: "cmodule \<Rightarrow> server_id list \<Rightarrow> tick \<Rightarrow> tick option" where
  "send_install_snapshot s ids t =
     (if ids = [] then Some t
      else do {
        snapshot \<leftarrow> cs_snapshot (cm_config s);
        Some (send_msg \<lparr>msg_request_id = 0, msg_to = ids,
          msg_body = InstallSnapshot \<lparr>isq_term = cm_term s, isq_leader_id = cm_id s,
             isq_last_applied = zero_position, isq_last_config = snapshot\<rparr>\<rparr> t)
      })"

definition replicate_entries :: "cmodule \<Rightarrow> tick \<Rightarrow> (cmodule \<times> tick \<times> instant) option" where
  "replicate_entries s t = do {
     (timeout_now_id, rng') \<leftarrow> pick_timeout_now_server_id s (tk_time t) (tk_rng t);
     case cm_state s of
       Leader l \<Rightarrow> do {
         r \<leftarrow> replicate_loop 9999 s (tk_time t) (servers (cm_conf s))
                \<lparr>rp_followers = ld_followers l, rp_message_map = [], rp_install_snapshot_ids = [],
                 rp_next_send_time = tk_time t + APPEND_ENTRIES_INTERVAL, rp_timeout_now_id = timeout_now_id,
                 rp_draining = cm_draining s, rp_last_request_id = cm_last_request_id s\<rparr>;
         let t1 = fold send_msg (drain_messages (rp_message_map r)) (t\<lparr>tk_rng := rng'\<rparr>);
         let s1 = s\<lparr>cm_state := Leader (l\<lparr>ld_followers := rp_followers r\<rparr>), cm_draining := rp_draining r,
                    cm_last_request_id := rp_last_request_id r\<rparr>;
         t2 \<leftarrow> send_install_snapshot s1 (rp_install_snapshot_ids r) t1;
         Some (s1, t2, rp_next_send_time r)
       }
     | _ \<Rightarrow> None
   }"

end
