(* ===== verification/Consensus_Cycle.thy ===== *)
theory Consensus_Cycle
  imports Consensus_Leader
begin

text \<open>
  \<open>cycle\<close> of \<open>consensus/module.rs\<close> and the operations it is mutually recursive with:
  \<open>become_candidate\<close>, \<open>become_follower\<close> and \<open>propose_entry\<close> all end in \<open>cycle\<close>, which calls them
  for a timed out follower or candidate, for a new leader's first entry and for the promotion
  of a server. Each of them takes the function that stands for \<open>cycle\<close> as an argument;
  \<open>cycle\<close> itself iterates the body as often as its recursion can be deep, and satisfies the
  source's recursive equation (\<open>cycle_unfold\<close> below).
\<close>

section \<open>Elections\<close>

definition perform_election :: "request_id \<Rightarrow> bool \<Rightarrow> cmodule \<Rightarrow> tick \<Rightarrow> tick option" where
  "perform_election request_id pre_vote s t = (case cm_state s of
      Candidate c \<Rightarrow>
        let req = \<lparr>rvq_term = cm_term s, rvq_candidate_id = cm_id s, rvq_last_log_index = cm_last_index s,
                   rvq_last_log_term = pos_term (cm_last_pos s),
                   rvq_leader_approval = (case ca_leader_approval c of Some v \<Rightarrow> v | None \<Rightarrow> 0)\<rparr>;
            ids = map srv_id (filter (\<lambda>v. srv_id v \<noteq> cm_id s \<and> srv_role v = MEMBER) (servers (cm_conf s)))
        in if length ids = 0 then Some t
           else Some (send_msg \<lparr>msg_request_id = request_id, msg_to = ids,
                        msg_body = (if pre_vote then PreVote req else RequestVote req)\<rparr> t)
    | _ \<Rightarrow> None)"

definition must_increment :: "consensus_state \<Rightarrow> bool" where
  "must_increment st = (case st of Candidate c \<Rightarrow> ca_some_rejected c | _ \<Rightarrow> True)"

definition next_attempt_number :: "consensus_state \<Rightarrow> nat" where
  "next_attempt_number st = (case st of Candidate c \<Rightarrow> ca_attempt_number c + 1 | _ \<Rightarrow> 0)"

definition start_candidate :: "raft_term option \<Rightarrow> handler" where
  "start_candidate leader_approval s t = do {
     _ \<leftarrow> rust_assert (can_be_leader s);
     let (s1, t1) = (if must_increment (cm_state s)
        then (s\<lparr>cm_meta := (cm_meta s)\<lparr>current_term := cm_term s + 1, voted_for := cm_id s\<rparr>\<rparr>, write_meta t)
        else (s, t));
     (timeout, r') \<leftarrow> new_election_timeout (tk_rng t1);
     let request_id = cm_last_request_id s1 + 1;
     let s2 = s1\<lparr>cm_last_request_id := request_id,
        cm_state := Candidate
          \<lparr>ca_attempt_number = next_attempt_number (cm_state s), ca_election_start = tk_time t1,
           ca_election_timeout = timeout, ca_vote_request_id = request_id, ca_pre_votes_received = [],
           ca_main_vote_start = None, ca_votes_received = [], ca_some_rejected = False,
           ca_leader_approval = leader_approval\<rparr>\<rparr>;
     let t2 = t1\<lparr>tk_rng := r'\<rparr>;
     t3 \<leftarrow> (if leader_approval = None then perform_election request_id True s2 t2 else Some t2);
     Some (s2, t3)
   }"

definition become_candidate :: "handler \<Rightarrow> raft_term option \<Rightarrow> handler" where
  "become_candidate cyc leader_approval s t = do {
     (s1, t1) \<leftarrow> start_candidate leader_approval s t;
     cyc s1 t1
   }"

definition reset_to_follower :: handler where
  "reset_to_follower s t = do {
     (st, r') \<leftarrow> new_follower (tk_time t) (tk_rng t);
     Some (s\<lparr>cm_state := st\<rparr>, t\<lparr>tk_rng := r'\<rparr>)
   }"

definition become_follower :: "handler \<Rightarrow> handler" where
  "become_follower cyc s t = do {
     (s1, t1) \<leftarrow> reset_to_follower s t;
     cyc s1 t1
   }"

section \<open>Proposals\<close>

definition config_target :: "config_change \<Rightarrow> server_id option" where
  "config_target c = (case c of
      RemoveServer i \<Rightarrow> Some i | AddLearner i \<Rightarrow> Some i | AddMember i \<Rightarrow> Some i | AddAspiring i \<Rightarrow> Some i
    | ConfigChange_NOT_SET \<Rightarrow> None)"

definition config_change_guard :: "cmodule \<Rightarrow> config_change \<Rightarrow> propose_error option option" where
  "config_change_guard s c = (case cs_pending (cm_config s) of
      Some pending \<Rightarrow> do {
        off \<leftarrow> lm_lookup (cm_log_meta s) (cp_last_change pending);
        off \<leftarrow> off;
        Some (Some (RetryAfter (new_position (off_term off) (cp_last_change pending))))
      }
    | None \<Rightarrow> Some (case config_target c of
          Some i \<Rightarrow> if i = cm_id s then Some RejectedConfigChange else None
        | None \<Rightarrow> Some RejectedConfigChange))"

text \<open>Why a leader rejects a proposal; the outer option is a panic.\<close>

definition propose_guard :: "cmodule \<Rightarrow> log_entry_data \<Rightarrow> read_index option \<Rightarrow> propose_error option option" where
  "propose_guard s data read =
     (if (case read of Some r \<Rightarrow> ri_term r \<noteq> cm_term s | None \<Rightarrow> False) then Some (Some ReadIndexTainted)
      else if cm_draining s \<noteq> None then Some (Some Draining)
      else do {
        _ \<leftarrow> rust_assert (cm_term s > 0);
        case data of
          Config c \<Rightarrow> config_change_guard s c
        | Command bytes \<Rightarrow> Some (if length bytes \<ge> MAX_COMMAND_SIZE then Some CommandTooLarge else None)
        | _ \<Rightarrow> Some None
      })"

definition track_followers ::
  "log_entry_data \<Rightarrow> log_index \<Rightarrow> (server_id \<times> follower_progress) list \<Rightarrow> (server_id \<times> follower_progress) list" where
  "track_followers data last_log_index fs = (case data of
      Config c \<Rightarrow> (case c of
          RemoveServer i \<Rightarrow> AList.delete i fs
        | AddLearner i \<Rightarrow> ensure_progress fs i last_log_index
        | AddAspiring i \<Rightarrow> ensure_progress fs i last_log_index
        | AddMember i \<Rightarrow> ensure_progress fs i last_log_index
        | ConfigChange_NOT_SET \<Rightarrow> fs)
    | _ \<Rightarrow> fs)"

definition append_proposal :: "log_entry_data \<Rightarrow> leader_state \<Rightarrow> cmodule \<Rightarrow> tick \<Rightarrow> (cmodule \<times> tick \<times> proposal) option" where
  "append_proposal data l s t = do {
     let last_log_index = cm_last_index s;
     let pos = new_position (cm_term s) (last_log_index + 1);
     let sequence = next_sequence (off_sequence (lm_last (cm_log_meta s)));
     let e = \<lparr>le_pos = pos, le_data = data\<rparr>;
     log_meta \<leftarrow> lm_append (cm_log_meta s) \<lparr>off_position = pos, off_sequence = sequence\<rparr>;
     Some (s\<lparr>cm_state := Leader (l\<lparr>ld_followers := track_followers data last_log_index (ld_followers l)\<rparr>),
             cm_config := cs_apply (cm_config s) e (cm_commit_index s),
             cm_log_meta := log_meta\<rparr>,
           t\<lparr>tk_new_entries := tk_new_entries t @ [\<lparr>ne_sequence = sequence, ne_entry = e\<rparr>]\<rparr>,
           pos)
   }"

definition propose_entry_with ::
  "handler \<Rightarrow> log_entry_data \<Rightarrow> read_index option \<Rightarrow> cmodule \<Rightarrow> tick \<Rightarrow> (cmodule \<times> tick \<times> (propose_error + proposal)) option" where
  "propose_entry_with cyc data read s t = (case cm_state s of
      Leader l \<Rightarrow> do {
        rejected \<leftarrow> propose_guard s data read;
        case rejected of
          Some err \<Rightarrow> Some (s, t, Inl err)
        | None \<Rightarrow> do {
            (s1, t1, pos) \<leftarrow> append_proposal data l s t;
            (s2, t2) \<leftarrow> cyc s1 t1;
            Some (s2, t2, Inr pos)
          }
      }
    | Follower _ \<Rightarrow> Some (s, t, Inl NotLeader)
    | Candidate c \<Rightarrow> Some (s, t, Inl (if ca_attempt_number c = 0 then PendingElection else NotLeader)))"

text \<open>A proposal whose failure panics (\<open>expect\<close> and \<open>unwrap\<close> of the result).\<close>

definition propose_or_panic :: "handler \<Rightarrow> log_entry_data \<Rightarrow> handler" where
  "propose_or_panic cyc data s t = do {
     (s1, t1, res) \<leftarrow> propose_entry_with cyc data None s t;
     case res of Inr _ \<Rightarrow> Some (s1, t1) | Inl _ \<Rightarrow> None
   }"

section \<open>One step of each role\<close>

definition set_next_tick :: "duration \<Rightarrow> tick \<Rightarrow> tick" where
  "set_next_tick d t = t\<lparr>tk_next_tick := Some d\<rparr>"

definition cycle_unknown :: handler where
  "cycle_unknown s t = do {
     _ \<leftarrow> rust_assert (is_follower (cm_state s));
     Some (s, set_next_tick (from_secs 1) t)
   }"

definition cycle_follower :: "handler \<Rightarrow> follower_state \<Rightarrow> handler" where
  "cycle_follower cyc f s t =
     (let elapsed = duration_since (tk_time t) (fo_last_heartbeat f)
      in if \<not> can_be_leader s \<or> cm_draining s \<noteq> None then do {
           (s1, t1) \<leftarrow> reset_to_follower s t;
           Some (s1, set_next_tick (from_secs 2) t1)
         }
         else if elapsed \<ge> fo_election_timeout f \<or> length (servers (cm_conf s)) = 1 then
           become_candidate cyc None s t
         else Some (s, set_next_tick (fo_election_timeout f - elapsed) t))"

definition have_self_voted :: "cmodule \<Rightarrow> bool" where
  "have_self_voted s \<longleftrightarrow> current_term (cm_persisted_meta s) = cm_term s
     \<and> voted_for (cm_persisted_meta s) \<noteq> 0 \<and> server_role (cm_conf s) (cm_id s) = MEMBER"

definition pre_vote_count :: "cmodule \<Rightarrow> candidate_state \<Rightarrow> nat" where
  "pre_vote_count s c = length (ca_pre_votes_received c)
     + (if server_role (cm_conf s) (cm_id s) = MEMBER then 1 else 0)"

definition vote_count :: "cmodule \<Rightarrow> candidate_state \<Rightarrow> nat" where
  "vote_count s c = length (ca_votes_received c) + (if have_self_voted s then 1 else 0)"

text \<open>The start of the main vote, which this cycle may itself begin; \<open>None\<close> in the last component: not yet.\<close>

definition main_vote :: "candidate_state \<Rightarrow> cmodule \<Rightarrow> tick \<Rightarrow> (cmodule \<times> tick \<times> instant option) option" where
  "main_vote c s t = (case ca_main_vote_start c of
      Some time \<Rightarrow> Some (s, t, Some time)
    | None \<Rightarrow>
        if pre_vote_count s c \<ge> cm_majority s \<or> ca_leader_approval c \<noteq> None then do {
          let s1 = s\<lparr>cm_state := Candidate (c\<lparr>ca_main_vote_start := Some (tk_time t)\<rparr>)\<rparr>;
          t1 \<leftarrow> perform_election (ca_vote_request_id c) False s1 t;
          Some (s1, t1, Some (tk_time t))
        }
        else Some (s, t, None))"

definition become_leader :: "instant \<Rightarrow> cmodule \<Rightarrow> cmodule" where
  "become_leader main_vote_start s =
     s\<lparr>cm_state := Leader
       \<lparr>ld_followers = fold (\<lambda>v fs. AList.update (srv_id v) (progress_new (cm_last_index s)) fs)
          (filter (\<lambda>v. srv_id v \<noteq> cm_id s) (servers (cm_conf s))) [],
        ld_min_read_index = (if cm_commit_index s = cm_last_index s then cm_last_index s else cm_last_index s + 1),
        ld_lease_start = main_vote_start, ld_heartbeat_now = False\<rparr>\<rparr>"

definition cycle_candidate :: "handler \<Rightarrow> candidate_state \<Rightarrow> handler" where
  "cycle_candidate cyc c s t =
     (let elapsed = duration_since (tk_time t) (ca_election_start c)
      in if elapsed \<ge> ca_election_timeout c then become_candidate cyc None s t
         else do {
           (s1, t1, started) \<leftarrow> main_vote c s (set_next_tick (ca_election_timeout c - elapsed) t);
           case started of
             None \<Rightarrow> Some (s1, t1)
           | Some main_vote_start \<Rightarrow>
               if vote_count s c \<ge> cm_majority s then do {
                 let s2 = become_leader main_vote_start s1;
                 (s3, t3) \<leftarrow> (if cm_commit_index s2 < cm_last_index s1
                             then propose_or_panic cyc (Noop True) s2 t1 else Some (s2, t1));
                 cyc s3 t3
               }
               else Some (s1, t1)
         })"

definition server_to_promote :: "cmodule \<Rightarrow> server_id option" where
  "server_to_promote s = (case cm_state s of
      Leader l \<Rightarrow> fold (\<lambda>(fid, p) acc.
          if server_role (cm_conf s) fid \<noteq> ASPIRING then acc
          else if \<not> is_follower_synchronized p then acc
          else Some fid) (ld_followers l) None
    | _ \<Rightarrow> None)"

text \<open>What a leader does that is still in power: send and maybe promote a server.\<close>

definition leader_round :: "cmodule \<Rightarrow> tick \<Rightarrow> (cmodule \<times> tick \<times> duration) option" where
  "leader_round s t = do {
     s1 \<leftarrow> expire_rounds (tk_time t) s;
     (s2, t2, heartbeat_time) \<leftarrow> send_heartbeats s1 t;
     (s3, t3, send_time) \<leftarrow> replicate_entries s2 t2;
     Some (s3, t3, if length (servers (cm_conf s3)) = 1 then from_secs 2
                   else duration_since (min heartbeat_time send_time) (tk_time t3))
   }"

definition leader_commit :: "leader_state \<Rightarrow> cmodule \<Rightarrow> tick \<Rightarrow> (cmodule \<times> tick \<times> instant) option" where
  "leader_commit l s t = do {
     next_commit_index \<leftarrow> find_next_commit_index s l;
     next_lease_start \<leftarrow> find_next_lease_start s l (tk_time t);
     (s1, t1) \<leftarrow> (case next_commit_index of Some ci \<Rightarrow> update_commited ci s t | None \<Rightarrow> Some (s, t));
     s2 \<leftarrow> update_lease_start next_lease_start s1;
     Some (s2, t1, next_lease_start)
   }"

definition cycle_leader :: "handler \<Rightarrow> leader_state \<Rightarrow> handler" where
  "cycle_leader cyc l s t = do {
     _ \<leftarrow> rust_assert (can_be_leader s);
     (s1, t1, next_lease_start) \<leftarrow> leader_commit l s t;
     if tk_time t1 \<ge> next_lease_start + from_millis (int (snd ELECTION_TIMEOUT)) then
       if cm_draining s1 \<noteq> None then become_follower cyc s1 t1 else become_candidate cyc None s1 t1
     else do {
       (s2, t2, next_heartbeat) \<leftarrow> leader_round s1 t1;
       case (if cs_pending (cm_config s2) = None \<and> cm_draining s2 = None then server_to_promote s2 else None) of
         Some sid \<Rightarrow> propose_or_panic cyc (Config (AddMember sid)) s2 t2
       | None \<Rightarrow> Some (s2, set_next_tick next_heartbeat t2)
     }
   }"

section \<open>The recursion\<close>

definition cycle_body :: "handler \<Rightarrow> handler" where
  "cycle_body cyc s t =
     (if server_role (cm_conf s) (cm_id s) = UNKNOWN then cycle_unknown s t
      else case cm_state s of
        Follower f \<Rightarrow> cycle_follower cyc f s t
      | Candidate c \<Rightarrow> cycle_candidate cyc c s t
      | Leader l \<Rightarrow> cycle_leader cyc l s t)"

definition num_aspiring :: "configuration \<Rightarrow> nat" where
  "num_aspiring cfg = length (filter (\<lambda>v. srv_role v = ASPIRING) (servers cfg))"

text \<open>
  How many promotions a leader may make in one cycle: one for every aspiring server, and one
  for every index by which the configuration is ahead of the log, since a change at such an
  index leaves the configuration as it is.
\<close>

definition promotions_left :: "cmodule \<Rightarrow> nat" where
  "promotions_left s = num_aspiring (cm_conf s) + (cs_last_applied (cm_config s) - cm_last_index s)"

definition cycle_depth :: "cmodule \<Rightarrow> nat" where
  "cycle_depth s = promotions_left s + 5"

definition cycle :: handler where
  "cycle s t = (cycle_body ^^ cycle_depth s) (\<lambda>_ _. None) s t"

definition propose_entry ::
  "log_entry_data \<Rightarrow> read_index option \<Rightarrow> cmodule \<Rightarrow> tick \<Rightarrow> (cmodule \<times> tick \<times> (propose_error + proposal)) option" where
  "propose_entry = propose_entry_with cycle"

definition propose_command ::
  "8 word list \<Rightarrow> cmodule \<Rightarrow> tick \<Rightarrow> (cmodule \<times> tick \<times> (propose_error + proposal)) option" where
  "propose_command data = propose_entry (Command data) None"

definition propose_noop :: "cmodule \<Rightarrow> tick \<Rightarrow> (cmodule \<times> tick \<times> (propose_error + proposal)) option" where
  "propose_noop = propose_entry (Noop True) None"

end
