(* ===== verification/Consensus_Handlers.thy ===== *)
theory Consensus_Handlers
  imports Consensus_Cycle
begin

text \<open>
  The public operations of \<open>ConsensusModule\<close> in \<open>consensus/module.rs\<close>: queries, proposals'
  status, read indexes, and the handlers for the requests and responses of the consensus
  RPCs. A handler that returns a Rust \<open>Result\<close> gives a sum as its last component; the module
  and the tick keep what was done before an error.
\<close>

section \<open>Queries\<close>

definition leader_hint :: "cmodule \<Rightarrow> leader_hint_msg" where
  "leader_hint s = \<lparr>lh_term = cm_term s, lh_leader_id = (case cm_state s of
      Leader _ \<Rightarrow> Some (cm_id s) | Candidate _ \<Rightarrow> Some (cm_id s) | Follower f \<Rightarrow> fo_last_leader_id f)\<rparr>"

definition config_snapshot :: "cmodule \<Rightarrow> configuration_snapshot option" where
  "config_snapshot s = cs_snapshot (cm_config s)"

definition lease_start :: "cmodule \<Rightarrow> instant option" where
  "lease_start s = (case cm_state s of Leader l \<Rightarrow> Some (ld_lease_start l) | _ \<Rightarrow> None)"

definition pending_election :: "cmodule \<Rightarrow> bool" where
  "pending_election s = (case cm_state s of Candidate c \<Rightarrow> ca_attempt_number c = 0 | _ \<Rightarrow> False)"

datatype status_role = STATUS_UNKNOWN | STATUS_CANDIDATE | STATUS_FOLLOWER | STATUS_LEADER

record follower_status =
  fs_id :: server_id
  fs_match_index :: log_index
  fs_synchronized :: bool

record module_status =
  st_id :: server_id
  st_role :: status_role
  st_metadata :: metadata
  st_configuration :: configuration
  st_followers :: "follower_status list"
  st_leader_hint :: server_id
  st_draining :: "(raft_term \<times> server_id) option"

definition current_status :: "cmodule \<Rightarrow> module_status option" where
  "current_status s = do {
     snapshot \<leftarrow> cs_snapshot (cm_config s);
     Some \<lparr>st_id = cm_id s,
       st_role = (case cm_state s of Leader _ \<Rightarrow> STATUS_LEADER | Follower _ \<Rightarrow> STATUS_FOLLOWER | Candidate _ \<Rightarrow> STATUS_CANDIDATE),
       st_metadata = cm_meta s,
       st_configuration = snap_data snapshot,
       st_followers = (case cm_state s of
           Leader l \<Rightarrow> map (\<lambda>(fid, p). \<lparr>fs_id = fid, fs_match_index = pr_match_index p,
                              fs_synchronized = is_follower_synchronized p\<rparr>) (ld_followers l)
         | _ \<Rightarrow> []),
       st_leader_hint = (case cm_state s of
           Leader _ \<Rightarrow> cm_id s
         | Follower f \<Rightarrow> (case fo_last_leader_id f of Some i \<Rightarrow> i | None \<Rightarrow> 0)
         | Candidate _ \<Rightarrow> 0),
       st_draining = map_option (\<lambda>d. (dr_term d, case dr_next_leader d of Some (i, _) \<Rightarrow> i | None \<Rightarrow> 0)) (cm_draining s)\<rparr>
   }"

definition read_index :: "instant \<Rightarrow> cmodule \<Rightarrow> leader_hint_msg + read_index" where
  "read_index time s = (case cm_state s of
      Leader l \<Rightarrow> Inr \<lparr>ri_term = cm_term s,
          ri_time = (if length (servers (cm_conf s)) = 1 then ld_lease_start l else time),
          ri_index = max (cm_commit_index s) (ld_min_read_index l)\<rparr>
    | _ \<Rightarrow> Inl (leader_hint s))"

definition resolve_read_index :: "cmodule \<Rightarrow> read_index \<Rightarrow> bool \<Rightarrow> (read_index_error + log_index) option" where
  "resolve_read_index s ri optimistic = (case cm_state s of
      Follower _ \<Rightarrow> Some (Inl RI_NotLeader)
    | Candidate _ \<Rightarrow> Some (Inl (if pending_election s then RI_PendingElection else RI_NotLeader))
    | Leader l \<Rightarrow>
        if cm_term s \<noteq> ri_term ri then Some (Inl RI_StaleIndex)
        else if cm_commit_index s < ri_index ri then do {
          off \<leftarrow> lm_lookup (cm_log_meta s) (ri_index ri);
          off \<leftarrow> off;
          Some (Inl (RI_RetryAfter (off_position off)))
        }
        else
          let min_time = (if optimistic \<and> cm_draining s = None then ri_time ri - drift_window else ri_time ri)
          in Some (if ld_lease_start l < min_time then Inl (RI_WaitForLease min_time) else Inr (ri_index ri)))"

definition proposal_status :: "cmodule \<Rightarrow> proposal \<Rightarrow> proposal_status option" where
  "proposal_status s prop =
     (if pos_term prop > pos_term (cm_last_pos s) \<or> pos_index prop > cm_last_index s then Some PS_Missing
      else do {
        off \<leftarrow> lm_lookup (cm_log_meta s) (pos_index prop);
        Some (case off of
            None \<Rightarrow> PS_Unavailable
          | Some off \<Rightarrow>
              if off_term off > pos_term prop then PS_Failed
              else if off_term off < pos_term prop then
                if cm_commit_index s \<ge> pos_index prop then PS_Failed else PS_Missing
              else if cm_commit_index s \<ge> pos_index prop then PS_Commited else PS_Failed)
      })"

section \<open>Requests of the local server\<close>

definition schedule_heartbeat :: handler where
  "schedule_heartbeat s t = (case cm_state s of
      Leader l \<Rightarrow> cycle (s\<lparr>cm_state := Leader (l\<lparr>ld_heartbeat_now := True\<rparr>)\<rparr>) t
    | _ \<Rightarrow> Some (s, t))"

definition reset_follower :: "instant \<Rightarrow> rng \<Rightarrow> cmodule \<Rightarrow> (cmodule \<times> rng) option" where
  "reset_follower time r s = (case cm_state s of
      Follower _ \<Rightarrow> do { (st, r') \<leftarrow> new_follower time r; Some (s\<lparr>cm_state := st\<rparr>, r') }
    | _ \<Rightarrow> Some (s, r))"

definition drain :: handler where
  "drain s t =
     (if cm_draining s \<noteq> None then Some (s, t)
      else cycle (s\<lparr>cm_draining := Some \<lparr>dr_term = cm_term s, dr_next_leader = None\<rparr>\<rparr>) t)"

definition log_flushed :: "log_sequence \<Rightarrow> handler" where
  "log_flushed last_flushed s t = do {
     _ \<leftarrow> rust_assert (last_flushed \<ge> cm_log_last_flushed s);
     cycle (s\<lparr>cm_log_last_flushed := last_flushed\<rparr>) t
   }"

definition log_discarded :: "log_position \<Rightarrow> cmodule \<Rightarrow> cmodule option" where
  "log_discarded prev s = do {
     log_meta \<leftarrow> lm_discard (cm_log_meta s) prev;
     let s1 = s\<lparr>cm_log_meta := log_meta\<rparr>;
     Some (case cm_state s1 of
         Leader l \<Rightarrow> s1\<lparr>cm_state := Leader (l\<lparr>ld_followers := map (\<lambda>(k, p).
             (k, if pr_next_index p \<le> pos_index prev then p\<lparr>pr_next_index := pos_index prev + 1\<rparr> else p))
             (ld_followers l)\<rparr>)\<rparr>
       | _ \<Rightarrow> s1)
   }"

definition persisted_metadata :: "metadata \<Rightarrow> handler" where
  "persisted_metadata meta s t = cycle (s\<lparr>cm_persisted_meta := meta\<rparr>) t"

section \<open>Votes\<close>

definition observe_term :: "raft_term \<Rightarrow> handler" where
  "observe_term term s t =
     (if term > cm_term s
      then become_follower cycle (s\<lparr>cm_meta := (cm_meta s)\<lparr>current_term := term, voted_for := 0\<rparr>\<rparr>) (write_meta t)
      else Some (s, t))"

definition observe_last_config_hint :: "request_vote_response \<Rightarrow> cmodule \<Rightarrow> tick \<Rightarrow> cmodule \<times> tick" where
  "observe_last_config_hint resp s t = (case rvr_last_config_hint resp of
      Some hint \<Rightarrow>
        if snap_last_applied hint > cs_last_applied (cm_config s)
        then (s\<lparr>cm_config := \<lparr>cs_value = snap_data hint, cs_last_applied = snap_last_applied hint, cs_pending = None\<rparr>\<rparr>,
              write_config t)
        else (s, t)
    | None \<Rightarrow> (s, t))"

definition count_vote :: "server_id \<Rightarrow> bool \<Rightarrow> bool \<Rightarrow> candidate_state \<Rightarrow> candidate_state" where
  "count_vote from_id is_pre_vote granted c =
     (if granted then
        if is_pre_vote then c\<lparr>ca_pre_votes_received := List.insert from_id (ca_pre_votes_received c)\<rparr>
        else c\<lparr>ca_votes_received := List.insert from_id (ca_votes_received c)\<rparr>
      else c\<lparr>ca_some_rejected := True\<rparr>)"

definition request_vote_callback :: "server_id \<Rightarrow> request_id \<Rightarrow> bool \<Rightarrow> request_vote_response \<Rightarrow> handler" where
  "request_vote_callback from_id request_id is_pre_vote resp s0 t0 = do {
     (s1, t1) \<leftarrow> observe_term (rvr_term resp) s0 t0;
     let (s, t) = observe_last_config_hint resp s1 t1;
     if cm_term s \<noteq> rvr_term resp then Some (s, t)
     else if from_id = cm_id s then Some (s, t)
     else case cm_state s of
       Candidate c \<Rightarrow>
         if ca_vote_request_id c \<noteq> request_id then Some (s, t)
         else cycle (s\<lparr>cm_state := Candidate (count_vote from_id is_pre_vote (rvr_vote_granted resp) c)\<rparr>) t
     | _ \<Rightarrow> Some (s, t)
   }"

definition log_up_to_date :: "request_vote_request \<Rightarrow> cmodule \<Rightarrow> bool" where
  "log_up_to_date req s \<longleftrightarrow> rvq_last_log_term req > pos_term (cm_last_pos s)
     \<or> rvq_last_log_term req = pos_term (cm_last_pos s) \<and> rvq_last_log_index req \<ge> cm_last_index s"

definition last_leader_seen :: "cmodule \<Rightarrow> instant option" where
  "last_leader_seen s = (case cm_state s of
      Follower f \<Rightarrow> if fo_last_leader_id f \<noteq> None then Some (fo_last_heartbeat f) else None
    | Candidate _ \<Rightarrow> None
    | Leader l \<Rightarrow> Some (ld_lease_start l))"

definition pre_vote_should_grant :: "request_vote_request \<Rightarrow> instant \<Rightarrow> cmodule \<Rightarrow> bool" where
  "pre_vote_should_grant req now s =
     (if rvq_term req < cm_term s then False
      else if \<not> log_up_to_date req s then False
      else if \<not> rvq_term req > cm_term s \<and> cm_voted_for s > 0 \<and> cm_voted_for s \<noteq> rvq_candidate_id req then False
      else if rvq_leader_approval req = cm_term s then True
      else case last_leader_seen s of
        Some seen \<Rightarrow> \<not> seen + drift_window > now
      | None \<Rightarrow> True)"

definition pre_vote :: "request_vote_request \<Rightarrow> instant \<Rightarrow> cmodule \<Rightarrow> request_vote_response option" where
  "pre_vote req now s = do {
     let granted = pre_vote_should_grant req now s;
     snapshot \<leftarrow> config_snapshot s;
     Some \<lparr>rvr_term = (if rvq_term req > cm_term s then rvq_term req else cm_term s),
           rvr_vote_granted = granted,
           rvr_last_config_hint =
             (if server_role (snap_data snapshot) (rvq_candidate_id req) \<noteq> MEMBER then Some snapshot else None)\<rparr>
   }"

text \<open>A response that the caller may only use after the metadata has been persisted.\<close>

datatype 'a must_persist_metadata = MustPersistMetadata (persisted: 'a)

definition request_vote ::
  "request_vote_request \<Rightarrow> cmodule \<Rightarrow> tick \<Rightarrow> (cmodule \<times> tick \<times> request_vote_response must_persist_metadata) option" where
  "request_vote req s0 t0 = do {
     (s, t) \<leftarrow> observe_term (rvq_term req) s0 t0;
     res \<leftarrow> pre_vote req (tk_time t) s;
     if rvr_vote_granted res then
       (case cm_state s of
          Follower f \<Rightarrow>
            Some (s\<lparr>cm_state := Follower (f\<lparr>fo_last_heartbeat := tk_time t, fo_last_leader_id := Some (rvq_candidate_id req)\<rparr>),
                    cm_meta := (cm_meta s)\<lparr>voted_for := rvq_candidate_id req\<rparr>\<rparr>,
                  write_meta t, MustPersistMetadata res)
        | _ \<Rightarrow> None)
     else Some (s, t, MustPersistMetadata res)
   }"

section \<open>Heartbeats\<close>

text \<open>What \<open>heartbeat\<close> and \<open>append_entries\<close> begin with: a candidate yields to a leader of its own term.\<close>

definition enter_request :: "raft_term \<Rightarrow> handler" where
  "enter_request term s0 t0 = do {
     (s, t) \<leftarrow> observe_term term s0 t0;
     if term = cm_term s \<and> is_candidate (cm_state s) then become_follower cycle s t else Some (s, t)
   }"

definition hear_leader :: "server_id \<Rightarrow> instant \<Rightarrow> cmodule \<Rightarrow> string + cmodule" where
  "hear_leader leader_id now s = (case cm_state s of
      Follower f \<Rightarrow> Inr (s\<lparr>cm_state := Follower (f\<lparr>fo_last_heartbeat := now, fo_last_leader_id := Some leader_id\<rparr>)\<rparr>)
    | Leader _ \<Rightarrow> Inl ''This should never happen. We are receiving append entries from another leader in the same term''
    | Candidate _ \<Rightarrow> Inl ''How can we still be a candidate right now?'')"

definition heartbeat :: "heartbeat_request \<Rightarrow> cmodule \<Rightarrow> tick \<Rightarrow> (cmodule \<times> tick \<times> (string + heartbeat_response)) option" where
  "heartbeat req s0 t0 = do {
     (s, t) \<leftarrow> enter_request (hbq_term req) s0 t0;
     let res = \<lparr>hbr_term = cm_term s\<rparr>;
     if hbq_term req < cm_term s then Some (s, t, Inr res)
     else case hear_leader (hbq_leader_id req) (tk_time t) s of
       Inl err \<Rightarrow> Some (s, t, Inl err)
     | Inr s1 \<Rightarrow> Some (s1, t, Inr res)
   }"

definition max_instant :: "instant option \<Rightarrow> instant \<Rightarrow> instant option" where
  "max_instant a b = (case a of None \<Rightarrow> Some b | Some a \<Rightarrow> Some (max a b))"

definition set_progress :: "cmodule \<Rightarrow> leader_state \<Rightarrow> server_id \<Rightarrow> follower_progress \<Rightarrow> cmodule" where
  "set_progress s l sid p = s\<lparr>cm_state := Leader (l\<lparr>ld_followers := AList.update sid p (ld_followers l)\<rparr>)\<rparr>"

text \<open>The leader's progress entry for a server, when there is one.\<close>

definition follower_progress_of :: "cmodule \<Rightarrow> server_id \<Rightarrow> (leader_state \<times> follower_progress) option" where
  "follower_progress_of s sid = (case cm_state s of
      Leader l \<Rightarrow> map_option (\<lambda>p. (l, p)) (map_of (ld_followers l) sid)
    | _ \<Rightarrow> None)"

definition heartbeat_callback :: "server_id \<Rightarrow> request_id \<Rightarrow> heartbeat_response option \<Rightarrow> handler" where
  "heartbeat_callback from_id request_id response s0 t0 = do {
     (s, t) \<leftarrow> (case response of Some resp \<Rightarrow> observe_term (hbr_term resp) s0 t0 | None \<Rightarrow> Some (s0, t0));
     case follower_progress_of s from_id of
       None \<Rightarrow> Some (s, t)
     | Some (l, p) \<Rightarrow>
         (case map_of (pr_pending_heartbeats p) request_id of
            None \<Rightarrow> Some (s, t)
          | Some start_time \<Rightarrow>
              let p1 = p\<lparr>pr_pending_heartbeats := AList.delete request_id (pr_pending_heartbeats p)\<rparr>;
                  p2 = (if response \<noteq> None then p1\<lparr>pr_lease_start := max_instant (pr_lease_start p1) start_time\<rparr>
                        else if pr_mode p1 = Live then p1\<lparr>pr_mode := Pesimistic\<rparr> else p1)
              in cycle (set_progress s l from_id p2) t)
   }"

section \<open>AppendEntries\<close>

definition make_response :: "raft_term \<Rightarrow> bool \<Rightarrow> log_index option \<Rightarrow> append_entries_response" where
  "make_response term success last_log_index =
     \<lparr>aer_term = term, aer_success = success,
      aer_last_log_index = (case last_log_index of Some i \<Rightarrow> i | None \<Rightarrow> 0)\<rparr>"

fun entries_follow :: "log_entry list \<Rightarrow> bool" where
  "entries_follow (cur # nxt # es) \<longleftrightarrow>
     \<not> (pos_term (le_pos cur) > pos_term (le_pos nxt) \<or> pos_index (le_pos nxt) \<noteq> pos_index (le_pos cur) + 1)
     \<and> entries_follow (nxt # es)"
| "entries_follow _ \<longleftrightarrow> True"

definition check_request :: "append_entries_request \<Rightarrow> string option" where
  "check_request req = (case aeq_entries req of
      [] \<Rightarrow> None
    | first # _ \<Rightarrow>
        if pos_term (le_pos first) < aeq_prev_log_term req \<or> pos_index (le_pos first) \<noteq> aeq_prev_log_index req + 1
        then Some ''Received previous entry does not follow''
        else if \<not> entries_follow (aeq_entries req)
        then Some ''Received entries are unsorted, duplicates, or inconsistent''
        else None)"

text \<open>
  The scan for the first new entry gives the number of entries already in the log and whether
  the next one replaces an entry, after undoing the configuration in that case.
\<close>

fun scan_entries :: "log_entry list \<Rightarrow> nat \<Rightarrow> cmodule \<Rightarrow> (string + cmodule \<times> nat \<times> bool) option" where
  "scan_entries [] first_new s = Some (Inr (s, first_new, False))"
| "scan_entries (e # es) first_new s = do {
     off \<leftarrow> lm_lookup (cm_log_meta s) (pos_index (le_pos e));
     case off of
       Some off \<Rightarrow>
         if off_term off = pos_term (le_pos e) then scan_entries es (first_new + 1) s
         else if mem_commit_index s \<ge> pos_index (le_pos e)
         then Some (Inl ''Refusing to truncate changes already locally committed'')
         else do {
           config \<leftarrow> cs_revert (cm_config s) (pos_index (le_pos e));
           Some (Inr (s\<lparr>cm_config := config\<rparr>, first_new, True))
         }
     | None \<Rightarrow> Some (Inr (s, first_new, False))
   }"

definition next_entry_follows :: "log_entry list \<Rightarrow> nat \<Rightarrow> cmodule \<Rightarrow> bool" where
  "next_entry_follows entries first_new s \<longleftrightarrow>
     \<not> (first_new < length entries
        \<and> (pos_index (le_pos (entries ! first_new)) \<noteq> cm_last_index s + 1
           \<or> pos_term (le_pos (entries ! first_new)) < pos_term (cm_last_pos s)))"

fun append_new :: "log_entry list \<Rightarrow> bool \<Rightarrow> log_sequence \<Rightarrow> cmodule \<Rightarrow> tick
    \<Rightarrow> (cmodule \<times> tick \<times> log_sequence \<times> bool) option" where
  "append_new [] pending_truncation last_new_seq s t = Some (s, t, last_new_seq, pending_truncation)"
| "append_new (e # es) pending_truncation last_new_seq s t = do {
     let seq = next_sequence (off_sequence (lm_last (cm_log_meta s)));
     log_meta \<leftarrow> lm_append (cm_log_meta s) \<lparr>off_position = le_pos e, off_sequence = seq\<rparr>;
     let s1 = s\<lparr>cm_log_meta := log_meta\<rparr>;
     let t1 = t\<lparr>tk_new_entries := tk_new_entries t @ [\<lparr>ne_sequence = seq, ne_entry = e\<rparr>]\<rparr>;
     let s2 = (if pending_truncation then s1\<lparr>cm_pending_conflict := Some seq\<rparr> else s1);
     append_new es False seq (s2\<lparr>cm_config := cs_apply (cm_config s2) e (cm_commit_index s2)\<rparr>) t1
   }"

definition follow_commit :: "log_index \<Rightarrow> log_index \<Rightarrow> handler" where
  "follow_commit leader_ci last_new s t =
     (if leader_ci > cm_commit_index s \<and> min leader_ci last_new > cm_commit_index s
      then update_commited (min leader_ci last_new) s t
      else Some (s, t))"

type_synonym append_result = "string + append_entries_response flush_constraint"

text \<open>The position of the last new entry, or of the previous entry when there is no new one.\<close>

definition last_new_position :: "append_entries_request \<Rightarrow> nat \<Rightarrow> log_position" where
  "last_new_position req first_new =
     (if drop first_new (aeq_entries req) = [] then new_position (aeq_prev_log_term req) (aeq_prev_log_index req)
      else le_pos (last (drop first_new (aeq_entries req))))"

text \<open>The last part of the handler: the request is consistent with the log.\<close>

definition accept_entries ::
  "append_entries_request \<Rightarrow> raft_term \<Rightarrow> nat \<Rightarrow> bool \<Rightarrow> cmodule \<Rightarrow> tick \<Rightarrow> (cmodule \<times> tick \<times> append_result) option" where
  "accept_entries req term first_new pending_truncation s t = do {
     prev_off \<leftarrow> lm_lookup (cm_log_meta s) (aeq_prev_log_index req);
     prev_off \<leftarrow> prev_off;
     let last_new = last_new_position req first_new;
     (s1, t1, last_new_seq, pending_truncation) \<leftarrow>
       append_new (drop first_new (aeq_entries req)) pending_truncation (off_sequence prev_off) s t;
     (s2, t2) \<leftarrow> follow_commit (aeq_leader_commit req) (pos_index last_new) s1 t1;
     let last_log_index = cm_last_index s2;
     _ \<leftarrow> rust_assert (\<not> pending_truncation);
     let res = fc_new (make_response term True (Some last_log_index)) last_new_seq last_new;
     if aeq_timeout_now req then
       if \<not> can_be_leader s2 then Some (s2, t2, Inl ''Timeout now received but can't be the leader'')
       else do { (s3, t3) \<leftarrow> become_candidate cycle (Some (aeq_term req)) s2 t2; Some (s3, t3, Inr res) }
     else Some (s2, t2, Inr res)
   }"

definition append_entries ::
  "append_entries_request \<Rightarrow> cmodule \<Rightarrow> tick \<Rightarrow> (cmodule \<times> tick \<times> append_result) option" where
  "append_entries req s0 t0 = do {
     (s, t) \<leftarrow> enter_request (aeq_term req) s0 t0;
     let term = cm_term s;
     if aeq_term req < term then Some (s, t, Inr (fc_from (make_response term False None)))
     else do {
       _ \<leftarrow> rust_assert (aeq_term req = term);
       case hear_leader (aeq_leader_id req) (tk_time t) s of
         Inl err \<Rightarrow> Some (s, t, Inl err)
       | Inr s1 \<Rightarrow>
           (case check_request req of
              Some err \<Rightarrow> Some (s1, t, Inl err)
            | None \<Rightarrow> do {
                prev \<leftarrow> lm_prev (cm_log_meta s1);
                if aeq_prev_log_index req < off_index prev
                then Some (s1, t, Inl ''Requested previous log entry is before the start of the log'')
                else do {
                  off \<leftarrow> lm_lookup (cm_log_meta s1) (aeq_prev_log_index req);
                  case off of
                    None \<Rightarrow> Some (s1, t, Inr (fc_from (make_response term False (Some (cm_last_index s1)))))
                  | Some off \<Rightarrow>
                      if off_term off \<noteq> aeq_prev_log_term req
                      then Some (s1, t, Inr (fc_from (make_response term False (Some (cm_commit_index s1)))))
                      else do {
                        scanned \<leftarrow> scan_entries (aeq_entries req) 0 s1;
                        case scanned of
                          Inl err \<Rightarrow> Some (s1, t, Inl err)
                        | Inr (s2, first_new, pending_truncation) \<Rightarrow>
                            if \<not> next_entry_follows (aeq_entries req) first_new s2
                            then Some (s2, t, Inl ''Next new entry is not immediately after our last local one'')
                            else accept_entries req term first_new pending_truncation s2 t
                      }
                }
              })
     }
   }"

definition finish_round :: "instant \<Rightarrow> follower_progress \<Rightarrow> follower_progress" where
  "finish_round now p = (case pr_round_start p of
      Some (target_index, start) \<Rightarrow>
        if pr_match_index p \<ge> target_index
        then p\<lparr>pr_successful_rounds := (if duration_since now start \<le> ROUND_TARGET_DURATION
                                        then pr_successful_rounds p + 1 else 0),
               pr_round_start := None\<rparr>
        else p
    | None \<Rightarrow> p)"

definition append_acked :: "append_entries_response \<Rightarrow> pending_append \<Rightarrow> follower_progress \<Rightarrow> follower_progress" where
  "append_acked resp ctx p =
     (if aer_success resp
      then p\<lparr>pr_mode := Live, pr_match_index := max (pr_match_index p) (pa_last_index_sent ctx)\<rparr>
      else p\<lparr>pr_mode := CatchingUp, pr_next_index := aer_last_log_index resp + 1\<rparr>)"

definition should_noop :: "append_entries_response \<Rightarrow> cmodule \<Rightarrow> bool" where
  "should_noop resp s \<longleftrightarrow> aer_success resp \<and> aer_last_log_index resp > 0
     \<and> aer_last_log_index resp > cm_last_index s \<and> pos_term (cm_last_pos s) \<noteq> cm_term s"

definition append_entries_callback :: "server_id \<Rightarrow> request_id \<Rightarrow> append_entries_response \<Rightarrow> handler" where
  "append_entries_callback from_id request_id resp s0 t0 = do {
     (s, t) \<leftarrow> observe_term (aer_term resp) s0 t0;
     case follower_progress_of s from_id of
       None \<Rightarrow> Some (s, t)
     | Some (l, p) \<Rightarrow>
         if pr_mode p = InstallingSnapshot then Some (s, t)
         else (case map_of (pr_pending_appends p) request_id of
            None \<Rightarrow> Some (s, t)
          | Some ctx \<Rightarrow>
              let p1 = p\<lparr>pr_pending_appends := AList.delete request_id (pr_pending_appends p),
                         pr_lease_start := max_instant (pr_lease_start p) (pa_start_time ctx)\<rparr>;
                  s1 = set_progress s l from_id (finish_round (tk_time t) (append_acked resp ctx p1))
              in if should_noop resp s then propose_or_panic cycle (Noop True) s1 t else cycle s1 t)
   }"

definition append_entries_noresponse :: "server_id \<Rightarrow> request_id \<Rightarrow> handler" where
  "append_entries_noresponse from_id request_id s t = (case follower_progress_of s from_id of
      None \<Rightarrow> Some (s, t)
    | Some (l, p) \<Rightarrow>
        if pr_mode p = InstallingSnapshot then Some (s, t)
        else if map_of (pr_pending_appends p) request_id = None then Some (s, t)
        else cycle (set_progress s l from_id
               (p\<lparr>pr_pending_appends := AList.delete request_id (pr_pending_appends p), pr_mode := Pesimistic\<rparr>)) t)"

section \<open>InstallSnapshot\<close>

definition install_snapshot ::
  "install_snapshot_request \<Rightarrow> cmodule \<Rightarrow> tick \<Rightarrow> (cmodule \<times> tick \<times> (string + install_snapshot_response)) option" where
  "install_snapshot req s0 t0 = do {
     (s, t) \<leftarrow> observe_term (isq_term req) s0 t0;
     if isq_term req \<noteq> cm_term s
     then Some (s, t, Inl ''Received an InstallSnapshot request is from an old term.'')
     else if pos_index (isq_last_applied req) > snap_last_applied (isq_last_config req)
     then Some (s, t, Inl ''InstallSnapshot user state machine is behind the config state machine.'')
     else
       let (s1, t1) = (if cs_last_applied (cm_config s) < snap_last_applied (isq_last_config req)
                       then (s\<lparr>cm_config := cs_from (isq_last_config req)\<rparr>, write_config t) else (s, t))
       in Some (s1, t1, Inr \<lparr>isr_term = cm_term s\<rparr>)
   }"

definition install_snapshot_callback_impl ::
  "server_id \<Rightarrow> install_snapshot_request \<Rightarrow> install_snapshot_response \<Rightarrow> bool \<Rightarrow> log_index \<Rightarrow> handler" where
  "install_snapshot_callback_impl to_id request response successful last_applied_index s0 t0 = do {
     (s, t) \<leftarrow> observe_term (isr_term response) s0 t0;
     if isq_term request \<noteq> cm_term s then Some (s, t)
     else case follower_progress_of s to_id of
       None \<Rightarrow> Some (s, t)
     | Some (l, p) \<Rightarrow>
         if pr_mode p \<noteq> InstallingSnapshot then Some (s, t)
         else if \<not> successful
         then cycle (set_progress s l to_id (p\<lparr>pr_next_index := cm_last_index s, pr_mode := Pesimistic\<rparr>)) t
         else cycle (set_progress s l to_id (p\<lparr>pr_next_index := last_applied_index + 1,
                       pr_match_index := last_applied_index, pr_mode := Live\<rparr>)) t
   }"

definition install_snapshot_callback ::
  "server_id \<Rightarrow> install_snapshot_request \<Rightarrow> install_snapshot_response \<Rightarrow> log_index \<Rightarrow> handler" where
  "install_snapshot_callback to_id request response last_applied_index =
     install_snapshot_callback_impl to_id request response True last_applied_index"

definition install_snapshot_noresponse :: "server_id \<Rightarrow> install_snapshot_request \<Rightarrow> handler" where
  "install_snapshot_noresponse to_id request s t =
     install_snapshot_callback_impl to_id request \<lparr>isr_term = cm_term s\<rparr> False (cm_last_index s) s t"

end
