(* ===== verification/Consensus_Frames.thy ===== *)
theory Consensus_Frames
  imports Consensus_Handlers
begin

text \<open>
  What the elementary steps of the consensus module change: each lemma writes the module and
  the tick after a step as an update of the ones before it, so that every field that the
  update does not name is known to be the same.
\<close>

lemma tick_ops_sel [simp]:
  "tk_time (write_meta t) = tk_time t" "tk_time (write_config t) = tk_time t" "tk_time (send_msg m t) = tk_time t"
  "tk_time (set_next_tick d t) = tk_time t" "tk_meta (write_meta t)"
  "tk_meta (write_config t) = tk_meta t" "tk_meta (send_msg m t) = tk_meta t" "tk_meta (set_next_tick d t) = tk_meta t"
  "tk_new_entries (write_meta t) = tk_new_entries t" "tk_new_entries (write_config t) = tk_new_entries t"
  "tk_new_entries (send_msg m t) = tk_new_entries t" "tk_new_entries (set_next_tick d t) = tk_new_entries t"
  "tk_messages (write_meta t) = tk_messages t" "tk_messages (write_config t) = tk_messages t"
  "tk_messages (send_msg m t) = tk_messages t @ [m]" "tk_messages (set_next_tick d t) = tk_messages t"
  "tk_rng (write_meta t) = tk_rng t" "tk_rng (write_config t) = tk_rng t" "tk_rng (send_msg m t) = tk_rng t"
  "tk_rng (set_next_tick d t) = tk_rng t"
  by (simp_all add: write_meta_def write_config_def send_msg_def set_next_tick_def)

lemma fold_send_msg: "fold send_msg ms t = t\<lparr>tk_messages := tk_messages t @ ms\<rparr>"
  by (induction ms arbitrary: t) (simp_all add: send_msg_def)

section \<open>Elections\<close>

lemma reset_to_followerE:
  assumes "reset_to_follower s t = Some (s', t')"
  obtains f r where "s' = s\<lparr>cm_state := Follower f\<rparr>" "t' = t\<lparr>tk_rng := r\<rparr>"
    "fo_last_heartbeat f = tk_time t" "fo_last_leader_id f = None"
  using assms by (auto simp: reset_to_follower_def new_follower_eq)

definition vote_message :: "cmodule \<Rightarrow> bool \<Rightarrow> consensus_message \<Rightarrow> bool" where
  "vote_message s pre m \<longleftrightarrow> (\<exists>req. msg_body m = (if pre then PreVote req else RequestVote req)
     \<and> rvq_term req = cm_term s \<and> rvq_candidate_id req = cm_id s
     \<and> rvq_last_log_index req = cm_last_index s \<and> rvq_last_log_term req = pos_term (cm_last_pos s))
     \<and> set (msg_to m) \<subseteq> voters (cm_conf s)"

lemma perform_electionE:
  assumes "perform_election rid pre s t = Some t'"
  obtains ms where "t' = t\<lparr>tk_messages := tk_messages t @ ms\<rparr>" "\<And>m. m \<in> set ms \<Longrightarrow> vote_message s pre m"
proof -
  from assms obtain c where c: "cm_state s = Candidate c"
    by (auto simp: perform_election_def split: consensus_state.splits)
  define req where "req = \<lparr>rvq_term = cm_term s, rvq_candidate_id = cm_id s, rvq_last_log_index = cm_last_index s,
     rvq_last_log_term = pos_term (cm_last_pos s),
     rvq_leader_approval = (case ca_leader_approval c of Some v \<Rightarrow> v | None \<Rightarrow> 0)\<rparr>"
  let ?ids = "map srv_id (filter (\<lambda>v. srv_id v \<noteq> cm_id s \<and> srv_role v = MEMBER) (servers (cm_conf s)))"
  let ?m = "\<lparr>msg_request_id = rid, msg_to = ?ids, msg_body = (if pre then PreVote req else RequestVote req)\<rparr>"
  have "t' = (if length ?ids = 0 then t else send_msg ?m t)"
    using assms c by (simp add: perform_election_def Let_def req_def split: if_splits)
  then have "t' = t\<lparr>tk_messages := tk_messages t @ (if length ?ids = 0 then [] else [?m])\<rparr>"
    by (simp add: send_msg_def)
  moreover have "vote_message s pre ?m" by (auto simp: vote_message_def req_def voters_def)
  ultimately show thesis by (intro that [of "if length ?ids = 0 then [] else [?m]"]) (auto split: if_splits)
qed

lemma start_candidateE:
  assumes "start_candidate a s t = Some (s', t')"
  obtains c m b ms r where
    "s' = s\<lparr>cm_meta := m, cm_state := Candidate c, cm_last_request_id := cm_last_request_id s + 1\<rparr>"
    "t' = t\<lparr>tk_meta := b, tk_messages := tk_messages t @ ms, tk_rng := r\<rparr>"
    "if must_increment (cm_state s)
     then m = (cm_meta s)\<lparr>current_term := cm_term s + 1, voted_for := cm_id s\<rparr> \<and> b
     else m = cm_meta s \<and> b = tk_meta t"
    "ca_election_start c = tk_time t" "ca_main_vote_start c = None" "ca_votes_received c = []"
    "ca_pre_votes_received c = []" "ca_leader_approval c = a"
    "from_millis 400 \<le> ca_election_timeout c" "can_be_leader s" "\<And>m. m \<in> set ms \<Longrightarrow> vote_message s' True m"
proof -
  let ?inc = "must_increment (cm_state s)"
  let ?s1 = "if ?inc then s\<lparr>cm_meta := (cm_meta s)\<lparr>current_term := cm_term s + 1, voted_for := cm_id s\<rparr>\<rparr> else s"
  let ?t1 = "if ?inc then write_meta t else t"
  from assms obtain d r where d: "new_election_timeout (tk_rng ?t1) = Some (d, r)" and c: "can_be_leader s"
    by (auto simp: start_candidate_def Let_def bind_eq_Some_conv split: if_splits)
  define c2 where "c2 = \<lparr>ca_attempt_number = next_attempt_number (cm_state s), ca_election_start = tk_time t,
     ca_election_timeout = d, ca_vote_request_id = cm_last_request_id s + 1, ca_pre_votes_received = [],
     ca_main_vote_start = None, ca_votes_received = [], ca_some_rejected = False, ca_leader_approval = a\<rparr>"
  let ?s2 = "?s1\<lparr>cm_last_request_id := cm_last_request_id s + 1, cm_state := Candidate c2\<rparr>"
  from assms d c have s': "s' = ?s2"
    and t': "(if a = None then perform_election (cm_last_request_id s + 1) True ?s2 (?t1\<lparr>tk_rng := r\<rparr>)
       else Some (?t1\<lparr>tk_rng := r\<rparr>)) = Some t'"
    by (auto simp: start_candidate_def Let_def c2_def bind_eq_Some_conv split: if_splits)
  have "\<exists>ms. t' = ?t1\<lparr>tk_messages := tk_messages t @ ms, tk_rng := r\<rparr> \<and> (\<forall>m \<in> set ms. vote_message ?s2 True m)"
  proof (cases "a = None")
    case True
    with t' have "perform_election (cm_last_request_id s + 1) True ?s2 (?t1\<lparr>tk_rng := r\<rparr>) = Some t'" by simp
    then obtain ms where "t' = ?t1\<lparr>tk_rng := r, tk_messages := tk_messages (?t1\<lparr>tk_rng := r\<rparr>) @ ms\<rparr>"
      "\<forall>m \<in> set ms. vote_message ?s2 True m"
      by (rule perform_electionE) blast
    then show ?thesis by (intro exI [of _ ms] conjI tick.equality) simp_all
  next
    case False
    with t' show ?thesis by (intro exI [of _ "[]"] conjI tick.equality) auto
  qed
  then obtain ms where t1: "t' = ?t1\<lparr>tk_messages := tk_messages t @ ms, tk_rng := r\<rparr>"
    and ms: "\<And>m. m \<in> set ms \<Longrightarrow> vote_message s' True m" unfolding s' by blast
  let ?m = "if ?inc then (cm_meta s)\<lparr>current_term := cm_term s + 1, voted_for := cm_id s\<rparr> else cm_meta s"
  have "s' = s\<lparr>cm_meta := ?m, cm_state := Candidate c2, cm_last_request_id := cm_last_request_id s + 1\<rparr>"
    unfolding s' by (intro cmodule.equality) simp_all
  moreover have "t' = t\<lparr>tk_meta := ?inc \<or> tk_meta t, tk_messages := tk_messages t @ ms, tk_rng := r\<rparr>"
    unfolding t1 by (intro tick.equality) (simp_all add: write_meta_def)
  moreover have "if ?inc then ?m = (cm_meta s)\<lparr>current_term := cm_term s + 1, voted_for := cm_id s\<rparr> \<and> (?inc \<or> tk_meta t)
      else ?m = cm_meta s \<and> (?inc \<or> tk_meta t) = tk_meta t"
    by simp
  ultimately show thesis
    using c new_election_timeout_range [OF d] ms by (elim that) (simp_all add: c2_def)
qed

lemma main_vote_cases:
  assumes "main_vote c s t = Some (s', t', st)"
  obtains (waiting) "ca_main_vote_start c = None" "s' = s" "t' = t" "st = None"
  | (voting) m where "ca_main_vote_start c = Some m" "s' = s" "t' = t" "st = Some m"
  | (begun) ms where "ca_main_vote_start c = None" "st = Some (tk_time t)"
      "s' = s\<lparr>cm_state := Candidate (c\<lparr>ca_main_vote_start := Some (tk_time t)\<rparr>)\<rparr>"
      "t' = t\<lparr>tk_messages := tk_messages t @ ms\<rparr>" "\<And>m. m \<in> set ms \<Longrightarrow> vote_message s' False m"
      "pre_vote_count s c \<ge> cm_majority s \<or> ca_leader_approval c \<noteq> None"
proof (cases "ca_main_vote_start c")
  case None
  show thesis
  proof (cases "pre_vote_count s c \<ge> cm_majority s \<or> ca_leader_approval c \<noteq> None")
    case True
    let ?s1 = "s\<lparr>cm_state := Candidate (c\<lparr>ca_main_vote_start := Some (tk_time t)\<rparr>)\<rparr>"
    from True assms None have "perform_election (ca_vote_request_id c) False ?s1 t = Some t'" "s' = ?s1" "st = Some (tk_time t)"
      by (auto simp: main_vote_def Let_def bind_eq_Some_conv)
    then show thesis using True None by (elim perform_electionE) (rule begun, simp_all)
  next
    case False
    with assms None show thesis by (intro waiting) (auto simp: main_vote_def)
  qed
next
  case (Some m)
  with assms show thesis by (intro voting [of m]) (auto simp: main_vote_def)
qed

section \<open>The leader's round\<close>

lemma update_commitedE:
  assumes "update_commited i s t = Some (s', t')"
  obtains ci cfg pc pi b b' where
    "s' = s\<lparr>cm_meta := (cm_meta s)\<lparr>commit_index := ci\<rparr>, cm_config := cfg, cm_pending_conflict := pc,
            cm_pending_commit_index := pi\<rparr>"
    "t' = t\<lparr>tk_meta := b, tk_config := b'\<rparr>"
    "cm_commit_index s \<le> ci" "ci = cm_commit_index s \<or> ci = i" "ci \<noteq> cm_commit_index s \<Longrightarrow> b" "tk_meta t \<Longrightarrow> b"
    "cfg = cm_config s \<or> cfg = fst (cs_commit (cm_config s) ci)"
proof (cases "resolve_conflict s")
  case None
  with assms show thesis
    using that [where ci = "cm_commit_index s" and cfg = "cm_config s" and pc = "cm_pending_conflict s"
        and pi = "Some i" and b = "tk_meta t" and b' = "tk_config t"]
    by (auto simp: update_commited_def bind_eq_Some_conv)
next
  case (Some s1)
  then have "s1 = s\<lparr>cm_pending_conflict := cm_pending_conflict s1\<rparr>"
    by (auto simp: resolve_conflict_def split: option.splits if_splits)
  then obtain pc where s1: "s1 = s\<lparr>cm_pending_conflict := pc\<rparr>" by blast
  let ?ci = "max i (cm_commit_index s)"
  obtain cfg ch where cfg: "cs_commit (cm_config s) ?ci = (cfg, ch)" by fastforce
  have "s' = s\<lparr>cm_meta := (cm_meta s)\<lparr>commit_index := ?ci\<rparr>, cm_config := cfg, cm_pending_conflict := pc\<rparr>"
    and "t' = (let t2 = if i > cm_commit_index s then write_meta t else t in if ch then write_config t2 else t2)"
    using assms Some s1 cfg
    by (auto simp: update_commited_def bind_eq_Some_conv max_def Let_def split: if_splits prod.splits)
  then show thesis
    using that [where ci = ?ci and cfg = cfg and pc = pc and pi = "cm_pending_commit_index s"
        and b = "i > cm_commit_index s \<or> tk_meta t" and b' = "ch \<or> tk_config t"] cfg
    by (auto simp: max_def Let_def write_meta_def write_config_def split: if_splits)
qed

lemma send_heartbeatsE:
  assumes "send_heartbeats s t = Some (s', t', x)"
  obtains l fs n ms where "cm_state s = Leader l"
    "s' = s\<lparr>cm_state := Leader (l\<lparr>ld_heartbeat_now := False, ld_followers := fs\<rparr>), cm_last_request_id := n\<rparr>"
    "t' = t\<lparr>tk_messages := tk_messages t @ ms\<rparr>" "cm_last_request_id s \<le> n"
    "\<And>m. m \<in> set ms \<Longrightarrow> msg_body m = Heartbeat \<lparr>hbq_term = cm_term s, hbq_leader_id = cm_id s\<rparr>"
proof -
  from assms obtain l where l: "cm_state s = Leader l"
    by (auto simp: send_heartbeats_def split: consensus_state.splits)
  from assms l obtain h where h: "heartbeat_servers
      (heartbeat_server (cm_id s) (cm_last_index s) (tk_time t) (ld_heartbeat_now l) (cm_last_request_id s + 1))
      (servers (cm_conf s))
      \<lparr>hr_followers = ld_followers l, hr_to_ids = [], hr_next_time = tk_time t + HEARTBEAT_INTERVAL\<rparr> = Some h"
    by (auto simp: send_heartbeats_def Let_def bind_eq_Some_conv)
  let ?n = "if hr_to_ids h = [] then cm_last_request_id s else cm_last_request_id s + 1"
  let ?m = "\<lparr>msg_request_id = cm_last_request_id s + 1, msg_to = hr_to_ids h,
      msg_body = Heartbeat \<lparr>hbq_term = cm_term s, hbq_leader_id = cm_id s\<rparr>\<rparr>"
  show thesis
  proof (rule that [where l = l and fs = "hr_followers h" and n = ?n and ms = "if hr_to_ids h = [] then [] else [?m]"])
    show "s' = s\<lparr>cm_state := Leader (l\<lparr>ld_heartbeat_now := False, ld_followers := hr_followers h\<rparr>), cm_last_request_id := ?n\<rparr>"
      using assms l h by (auto simp: send_heartbeats_def Let_def split: if_splits)
    show "t' = t\<lparr>tk_messages := tk_messages t @ (if hr_to_ids h = [] then [] else [?m])\<rparr>"
      using assms l h by (auto simp: send_heartbeats_def Let_def send_msg_def split: if_splits)
  qed (use l in \<open>auto split: if_splits\<close>)
qed

lemma replicate_send_frame:
  assumes "replicate_send s now sid p prev lst tn r = Some (r', b)"
  shows "(rp_draining r' = None) = (rp_draining r = None) \<and> rp_last_request_id r \<le> rp_last_request_id r'"
proof -
  obtain r1 where r1: "(if tn then do { d \<leftarrow> rp_draining r;
        Some (r\<lparr>rp_timeout_now_id := None, rp_draining := Some (d\<lparr>dr_next_leader := Some (sid, now)\<rparr>)\<rparr>) }
      else Some r) = Some r1"
    using assms by (auto simp: replicate_send_def Let_def bind_eq_Some_conv)
  then have "(rp_draining r1 = None) = (rp_draining r = None)" "rp_last_request_id r1 = rp_last_request_id r"
    by (auto simp: bind_eq_Some_conv split: if_splits)
  moreover have "rp_draining r' = rp_draining r1" "rp_last_request_id r1 \<le> rp_last_request_id r'"
    using assms unfolding replicate_send_def Let_def r1
    by (auto simp: bind_eq_Some_conv split: option.splits)
  ultimately show ?thesis by simp
qed

lemma replicate_server_frame:
  assumes "replicate_server s now v r = Some (r', b)"
  shows "(rp_draining r' = None) = (rp_draining r = None) \<and> rp_last_request_id r \<le> rp_last_request_id r'"
  using assms
  by (auto simp: replicate_server_def Let_def split: Option.bind_splits if_splits option.splits
      dest!: replicate_send_frame)

lemma replicate_loop_frame:
  "replicate_loop n s now vs r = Some r' \<Longrightarrow>
   (rp_draining r' = None) = (rp_draining r = None) \<and> rp_last_request_id r \<le> rp_last_request_id r'"
proof (induction n s now vs r rule: replicate_loop.induct)
  case (3 n s now server rest r)
  from "3.prems" obtain r1 b where "replicate_server s now server r = Some (r1, b)"
    "replicate_loop n s now (if b then rest else server # rest) r1 = Some r'"
    by (auto simp: bind_eq_Some_conv)
  with "3.IH" [of "(r1, b)" r1 b] replicate_server_frame show ?case by fastforce
qed simp_all

text \<open>What a leader sends carries its term, its identity and, with entries, its commit index.\<close>

definition leader_message :: "cmodule \<Rightarrow> consensus_message \<Rightarrow> bool" where
  "leader_message s m \<longleftrightarrow> (case msg_body m of
      Heartbeat req \<Rightarrow> hbq_term req = cm_term s \<and> hbq_leader_id req = cm_id s
    | AppendEntries req _ _ \<Rightarrow> aeq_term req = cm_term s \<and> aeq_leader_id req = cm_id s \<and> aeq_leader_commit req = cm_commit_index s
    | InstallSnapshot req \<Rightarrow> isq_term req = cm_term s \<and> isq_leader_id req = cm_id s
    | _ \<Rightarrow> False)"

lemma leader_message_append [simp]: "leader_message s (append_message s rid sid p pt b lst q)"
  by (simp add: leader_message_def append_message_def)

lemma leader_message_to [simp]: "leader_message s (m\<lparr>msg_to := ids\<rparr>) = leader_message s m"
  by (simp add: leader_message_def)

definition leader_messages :: "cmodule \<Rightarrow> replication \<Rightarrow> bool" where
  "leader_messages s r \<longleftrightarrow> (\<forall>k m. (k, m) \<in> set (rp_message_map r) \<longrightarrow> leader_message s m)"

lemma alist_update_subset: "set (AList.update k v al) \<subseteq> insert (k, v) (set al)"
  by (induction al) auto

lemma replicate_send_messages:
  assumes "replicate_send s now sid p prev lst tn r = Some (r', b)" "leader_messages s r"
  shows "leader_messages s r'"
proof -
  obtain r1 where r1: "(if tn then do { d \<leftarrow> rp_draining r;
        Some (r\<lparr>rp_timeout_now_id := None, rp_draining := Some (d\<lparr>dr_next_leader := Some (sid, now)\<rparr>)\<rparr>) }
      else Some r) = Some r1"
    using assms by (auto simp: replicate_send_def Let_def bind_eq_Some_conv)
  then have l: "leader_messages s r1" using assms(2)
    by (auto simp: leader_messages_def bind_eq_Some_conv split: if_splits)
  have old: "leader_message s m" if "map_of (rp_message_map r1) k = Some m" for k m
    using l map_of_SomeD [OF that] unfolding leader_messages_def by blast
  have "leader_message s m \<or> (k, m) \<in> set (rp_message_map r1)" if m: "(k, m) \<in> set (rp_message_map r')" for k m
  proof (cases "map_of (rp_message_map r1) (prev, lst, tn)")
    case None
    with assms(1) m show ?thesis unfolding replicate_send_def Let_def r1
      by (auto simp: bind_eq_Some_conv split: option.splits dest!: subsetD [OF alist_update_subset])
  next
    case (Some m)
    with assms(1) m old [OF Some] show ?thesis unfolding replicate_send_def Let_def r1
      by (auto simp: bind_eq_Some_conv dest!: subsetD [OF alist_update_subset])
  qed
  then show ?thesis using l unfolding leader_messages_def by blast
qed

lemma leader_messages_frame [simp]:
  "leader_messages s (r\<lparr>rp_followers := fs\<rparr>) = leader_messages s r"
  "leader_messages s (r\<lparr>rp_next_send_time := n\<rparr>) = leader_messages s r"
  by (simp_all add: leader_messages_def)

lemma replicate_server_messages:
  "replicate_server s now v r = Some (r', b) \<Longrightarrow> leader_messages s r \<Longrightarrow> leader_messages s r'"
  by (auto simp: replicate_server_def Let_def split: Option.bind_splits if_splits option.splits
      dest!: replicate_send_messages)

lemma replicate_loop_messages:
  "replicate_loop n s now vs r = Some r' \<Longrightarrow> leader_messages s r \<Longrightarrow> leader_messages s r'"
proof (induction n s now vs r rule: replicate_loop.induct)
  case (3 n s now server rest r)
  from "3.prems" obtain r1 b where "replicate_server s now server r = Some (r1, b)"
    "replicate_loop n s now (if b then rest else server # rest) r1 = Some r'"
    by (auto simp: bind_eq_Some_conv)
  with "3.IH" [of "(r1, b)" r1 b] "3.prems" replicate_server_messages show ?case by fastforce
qed simp_all

lemma replicate_entriesE:
  assumes "replicate_entries s t = Some (s', t', x)"
  obtains l fs d n ms rg where "cm_state s = Leader l"
    "s' = s\<lparr>cm_state := Leader (l\<lparr>ld_followers := fs\<rparr>), cm_draining := d, cm_last_request_id := n\<rparr>"
    "t' = t\<lparr>tk_messages := tk_messages t @ ms, tk_rng := rg\<rparr>"
    "(d = None) = (cm_draining s = None)" "cm_last_request_id s \<le> n" "\<And>m. m \<in> set ms \<Longrightarrow> leader_message s m"
proof -
  from assms obtain l where l: "cm_state s = Leader l"
    by (cases "cm_state s") (auto simp: replicate_entries_def split: Option.bind_splits)
  from assms l obtain i rg r where r: "replicate_loop 9999 s (tk_time t) (servers (cm_conf s))
      \<lparr>rp_followers = ld_followers l, rp_message_map = [], rp_install_snapshot_ids = [],
       rp_next_send_time = tk_time t + APPEND_ENTRIES_INTERVAL, rp_timeout_now_id = i,
       rp_draining = cm_draining s, rp_last_request_id = cm_last_request_id s\<rparr> = Some r"
    and s': "s' = s\<lparr>cm_state := Leader (l\<lparr>ld_followers := rp_followers r\<rparr>), cm_draining := rp_draining r,
              cm_last_request_id := rp_last_request_id r\<rparr>"
    and t': "send_install_snapshot s' (rp_install_snapshot_ids r)
       (fold send_msg (drain_messages (rp_message_map r)) (t\<lparr>tk_rng := rg\<rparr>)) = Some t'"
    by (auto simp: replicate_entries_def Let_def bind_eq_Some_conv)
  have lm: "leader_messages s r" by (rule replicate_loop_messages [OF r]) (simp add: leader_messages_def)
  then have ms: "\<forall>m \<in> set (drain_messages (rp_message_map r)). leader_message s m"
    by (auto simp: drain_messages_def leader_messages_def)
  have "\<exists>ms. t' = t\<lparr>tk_messages := tk_messages t @ ms, tk_rng := rg\<rparr> \<and> (\<forall>m \<in> set ms. leader_message s m)"
  proof (cases "rp_install_snapshot_ids r = []")
    case True
    with t' ms show ?thesis
      by (intro exI [of _ "drain_messages (rp_message_map r)"] conjI tick.equality)
        (auto simp: send_install_snapshot_def fold_send_msg)
  next
    case False
    with t' s' obtain m where "t' = send_msg m (fold send_msg (drain_messages (rp_message_map r)) (t\<lparr>tk_rng := rg\<rparr>))"
      "leader_message s m"
      by (auto simp: send_install_snapshot_def bind_eq_Some_conv leader_message_def)
    with ms show ?thesis
      by (intro exI [of _ "drain_messages (rp_message_map r) @ [m]"] conjI tick.equality)
        (auto simp: fold_send_msg send_msg_def)
  qed
  then obtain ms where "t' = t\<lparr>tk_messages := tk_messages t @ ms, tk_rng := rg\<rparr>" "\<forall>m \<in> set ms. leader_message s m" by blast
  with l s' replicate_loop_frame [OF r] show thesis by (intro that [OF l s']) auto
qed

lemma leader_roundE:
  assumes "leader_round s t = Some (s', t', x)"
  obtains l l' d n ms rg where "cm_state s = Leader l"
    "s' = s\<lparr>cm_state := Leader l', cm_draining := d, cm_last_request_id := n\<rparr>"
    "t' = t\<lparr>tk_messages := tk_messages t @ ms, tk_rng := rg\<rparr>"
    "ld_lease_start l' = ld_lease_start l" "ld_min_read_index l' = ld_min_read_index l"
    "(d = None) = (cm_draining s = None)" "cm_last_request_id s \<le> n" "\<And>m. m \<in> set ms \<Longrightarrow> leader_message s m"
proof -
  from assms obtain l where l: "cm_state s = Leader l"
    by (auto simp: leader_round_def expire_rounds_def bind_eq_Some_conv split: consensus_state.splits)
  from assms l obtain fs s2 t2 a b where
    a: "send_heartbeats (s\<lparr>cm_state := Leader (l\<lparr>ld_followers := fs\<rparr>)\<rparr>) t = Some (s2, t2, a)" and
    b: "replicate_entries s2 t2 = Some (s', t', b)"
    by (auto simp: leader_round_def expire_rounds_def bind_eq_Some_conv)
  from a obtain fs' n ms where s2: "s2 = s\<lparr>cm_state := Leader (l\<lparr>ld_heartbeat_now := False, ld_followers := fs'\<rparr>), cm_last_request_id := n\<rparr>"
    "t2 = t\<lparr>tk_messages := tk_messages t @ ms\<rparr>" "cm_last_request_id s \<le> n"
    "\<forall>m \<in> set ms. msg_body m = Heartbeat \<lparr>hbq_term = cm_term s, hbq_leader_id = cm_id s\<rparr>"
    by (rule send_heartbeatsE) auto
  from b obtain fs2 d n2 ms2 rg where s': "s' = s2\<lparr>cm_state := Leader (l\<lparr>ld_heartbeat_now := False, ld_followers := fs2\<rparr>),
      cm_draining := d, cm_last_request_id := n2\<rparr>"
    "t' = t2\<lparr>tk_messages := tk_messages t2 @ ms2, tk_rng := rg\<rparr>"
    "(d = None) = (cm_draining s2 = None)" "cm_last_request_id s2 \<le> n2" "\<forall>m \<in> set ms2. leader_message s2 m"
    by (rule replicate_entriesE) (auto simp: s2)
  have ms: "leader_message s m" if "m \<in> set (ms @ ms2)" for m
    using that s2(4) s'(5) by (auto simp: leader_message_def s2(1) split: consensus_message_body.splits)
  show thesis
  proof (rule that [OF l])
    show "s' = s\<lparr>cm_state := Leader (l\<lparr>ld_heartbeat_now := False, ld_followers := fs2\<rparr>), cm_draining := d, cm_last_request_id := n2\<rparr>"
      by (intro cmodule.equality) (simp_all add: s' s2)
    show "t' = t\<lparr>tk_messages := tk_messages t @ (ms @ ms2), tk_rng := rg\<rparr>"
      by (intro tick.equality) (simp_all add: s' s2)
  qed (use s' s2 ms in auto)
qed

lemma find_next_lease_start_ge:
  assumes "find_next_lease_start s l now = Some x"
  shows "x = now \<or> ld_lease_start l \<le> x"
  using assms
  by (auto simp: find_next_lease_start_def Let_def split: Option.bind_splits if_splits)

lemma find_next_commit_index_gt:
  "find_next_commit_index s l = Some (Some i) \<Longrightarrow> cm_commit_index s < i"
  by (auto simp: find_next_commit_index_def split: Option.bind_splits if_splits option.splits)

lemma leader_commitE:
  assumes "leader_commit l s t = Some (s', t', x)" "cm_state s = Leader l"
  obtains ci cfg pc pi b b' where
    "s' = s\<lparr>cm_meta := (cm_meta s)\<lparr>commit_index := ci\<rparr>, cm_config := cfg, cm_pending_conflict := pc,
            cm_pending_commit_index := pi, cm_state := Leader (l\<lparr>ld_lease_start := x\<rparr>)\<rparr>"
    "t' = t\<lparr>tk_meta := b, tk_config := b'\<rparr>"
    "cm_commit_index s \<le> ci" "ci = cm_commit_index s \<or> find_next_commit_index s l = Some (Some ci)"
    "ci \<noteq> cm_commit_index s \<Longrightarrow> b" "tk_meta t \<Longrightarrow> b"
    "cfg = cm_config s \<or> cfg = fst (cs_commit (cm_config s) ci)"
    "x = tk_time t \<or> ld_lease_start l \<le> x" "find_next_lease_start s l (tk_time t) = Some x"
proof -
  from assms(1) obtain nci s1 where nci: "find_next_commit_index s l = Some nci"
    and x: "find_next_lease_start s l (tk_time t) = Some x"
    and s1: "(case nci of Some ci \<Rightarrow> update_commited ci s t | None \<Rightarrow> Some (s, t)) = Some (s1, t')"
    and s': "update_lease_start x s1 = Some s'"
    by (auto simp: leader_commit_def bind_eq_Some_conv)
  show thesis
  proof (cases nci)
    case None
    then have "s1 = s" "t' = t" using s1 by auto
    then show thesis
      using s' assms(2) x find_next_lease_start_ge [OF x]
      by (intro that [where ci = "cm_commit_index s" and cfg = "cm_config s" and pc = "cm_pending_conflict s"
            and pi = "cm_pending_commit_index s" and b = "tk_meta t" and b' = "tk_config t"])
        (auto simp: update_lease_start_def)
  next
    case (Some i)
    from Some s1 have "update_commited i s t = Some (s1, t')" by simp
    then show thesis
    proof (rule update_commitedE)
      fix ci cfg pc pi b b'
      assume u: "s1 = s\<lparr>cm_meta := (cm_meta s)\<lparr>commit_index := ci\<rparr>, cm_config := cfg, cm_pending_conflict := pc,
            cm_pending_commit_index := pi\<rparr>" "t' = t\<lparr>tk_meta := b, tk_config := b'\<rparr>"
        "cm_commit_index s \<le> ci" "ci = cm_commit_index s \<or> ci = i" "ci \<noteq> cm_commit_index s \<Longrightarrow> b" "tk_meta t \<Longrightarrow> b"
        "cfg = cm_config s \<or> cfg = fst (cs_commit (cm_config s) ci)"
      from s' u(1) assms(2) have "s' = s\<lparr>cm_meta := (cm_meta s)\<lparr>commit_index := ci\<rparr>, cm_config := cfg,
          cm_pending_conflict := pc, cm_pending_commit_index := pi, cm_state := Leader (l\<lparr>ld_lease_start := x\<rparr>)\<rparr>"
        by (simp add: update_lease_start_def)
      from that [OF this u(2,3) _ u(5,6,7) find_next_lease_start_ge [OF x] x] u(4) nci Some show thesis by blast
    qed
  qed
qed

section \<open>Proposals\<close>

lemma lm_append_last: "lm_append m off = Some m' \<Longrightarrow> lm_last m' = off"
  by (auto simp: lm_append_def lm_last_def Let_def bind_eq_Some_conv)

lemma append_proposalE:
  assumes "append_proposal data l s t = Some (s', t', pos)"
  obtains lm fs e q where
    "s' = s\<lparr>cm_state := Leader (l\<lparr>ld_followers := fs\<rparr>), cm_config := cs_apply (cm_config s) e (cm_commit_index s),
            cm_log_meta := lm\<rparr>"
    "t' = t\<lparr>tk_new_entries := tk_new_entries t @ [\<lparr>ne_sequence = q, ne_entry = e\<rparr>]\<rparr>"
    "le_pos e = pos" "le_data e = data" "pos = new_position (cm_term s) (cm_last_index s + 1)"
    "lm_append (cm_log_meta s) \<lparr>off_position = pos, off_sequence = q\<rparr> = Some lm"
    "q = off_sequence (lm_last (cm_log_meta s)) + 1"
  using assms
  by (auto simp: append_proposal_def Let_def bind_eq_Some_conv next_sequence_def plus_sequence_def intro!: that)

section \<open>Entries received from a leader\<close>

lemma scan_entriesE:
  assumes "scan_entries es n s = Some (Inr (s', k, b))"
  obtains c where "s' = s\<lparr>cm_config := c\<rparr>" "\<not> b \<Longrightarrow> s' = s"
proof -
  have "\<exists>c. s' = s\<lparr>cm_config := c\<rparr> \<and> (\<not> b \<longrightarrow> s' = s)" using assms
  proof (induction es arbitrary: n)
    case Nil
    then have "s' = s\<lparr>cm_config := cm_config s\<rparr> \<and> s' = s" by simp
    then show ?case by blast
  next
    case (Cons e es)
    show ?case
    proof (cases "s' = s")
      case True
      then have "s' = s\<lparr>cm_config := cm_config s\<rparr> \<and> s' = s" by simp
      then show ?thesis by blast
    next
      case False
      with Cons show ?thesis by (auto split: Option.bind_splits option.splits if_splits)
    qed
  qed
  then show thesis using that by blast
qed

definition append_ops :: "new_log_entry list \<Rightarrow> log_op list" where
  "append_ops ns = map (\<lambda>n. Append_op (ne_entry n) (ne_sequence n)) ns"

lemma append_ops_simps [simp]:
  "append_ops [] = []" "append_ops (n # ns) = Append_op (ne_entry n) (ne_sequence n) # append_ops ns"
  "append_ops (ns @ ms) = append_ops ns @ append_ops ms"
  by (simp_all add: append_ops_def)

lemma run_ops_append: "run_ops step s (xs @ ys) = Option.bind (run_ops step s xs) (\<lambda>s'. run_ops step s' ys)"
  by (induction xs arbitrary: s) (simp_all add: bind_assoc)

lemma append_newE:
  assumes "append_new es b q s t = Some (s', t', q', b')"
  obtains lm pc cfg ns where "s' = s\<lparr>cm_log_meta := lm, cm_pending_conflict := pc, cm_config := cfg\<rparr>"
    "t' = t\<lparr>tk_new_entries := tk_new_entries t @ ns\<rparr>" "map ne_entry ns = es"
    "run_ops lm_step (cm_log_meta s) (append_ops ns) = Some lm"
    "q' = (if ns = [] then q else ne_sequence (last ns))" "b' = (b \<and> es = [])"
proof -
  have "\<exists>lm pc cfg ns. s' = s\<lparr>cm_log_meta := lm, cm_pending_conflict := pc, cm_config := cfg\<rparr>
    \<and> t' = t\<lparr>tk_new_entries := tk_new_entries t @ ns\<rparr> \<and> map ne_entry ns = es
    \<and> run_ops lm_step (cm_log_meta s) (append_ops ns) = Some lm
    \<and> q' = (if ns = [] then q else ne_sequence (last ns)) \<and> b' = (b \<and> es = [])"
    using assms
  proof (induction es b q s t rule: append_new.induct)
    case (1 b q s t)
    then show ?case
      by (intro exI [of _ "cm_log_meta s"] exI [of _ "cm_pending_conflict s"] exI [of _ "cm_config s"] exI [of _ "[]"]) simp
  next
    case (2 e es b q s t)
    let ?seq = "next_sequence (off_sequence (lm_last (cm_log_meta s)))"
    from "2.prems" obtain lm where lm: "lm_append (cm_log_meta s) \<lparr>off_position = le_pos e, off_sequence = ?seq\<rparr> = Some lm"
      by (auto simp: Let_def bind_eq_Some_conv)
    let ?s1 = "s\<lparr>cm_log_meta := lm\<rparr>"
    let ?s2 = "if b then ?s1\<lparr>cm_pending_conflict := Some ?seq\<rparr> else ?s1"
    let ?s3 = "?s2\<lparr>cm_config := cs_apply (cm_config ?s2) e (cm_commit_index ?s2)\<rparr>"
    let ?n = "\<lparr>ne_sequence = ?seq, ne_entry = e\<rparr>"
    let ?t1 = "t\<lparr>tk_new_entries := tk_new_entries t @ [?n]\<rparr>"
    from "2.prems" lm have "append_new es False ?seq ?s3 ?t1 = Some (s', t', q', b')" by (simp add: Let_def)
    from "2.IH" [OF refl lm refl refl refl this] obtain lm' pc cfg ns where
      r: "s' = ?s3\<lparr>cm_log_meta := lm', cm_pending_conflict := pc, cm_config := cfg\<rparr>"
      "t' = ?t1\<lparr>tk_new_entries := tk_new_entries ?t1 @ ns\<rparr>" "map ne_entry ns = es"
      "run_ops lm_step (cm_log_meta ?s3) (append_ops ns) = Some lm'"
      "q' = (if ns = [] then ?seq else ne_sequence (last ns))" "b' = (False \<and> es = [])"
      by blast
    have "s' = s\<lparr>cm_log_meta := lm', cm_pending_conflict := pc, cm_config := cfg\<rparr>"
      unfolding r(1) by (intro cmodule.equality) simp_all
    moreover have "t' = t\<lparr>tk_new_entries := tk_new_entries t @ (?n # ns)\<rparr>"
      unfolding r(2) by simp
    moreover have "run_ops lm_step (cm_log_meta s) (append_ops (?n # ns)) = Some lm'"
      using r(4) lm by (cases b) (simp_all add: lm_step_def)
    ultimately show ?case
      using r(3,5,6) by (intro exI [of _ lm'] exI [of _ pc] exI [of _ cfg] exI [of _ "?n # ns"]) auto
  qed
  then show thesis using that by blast
qed

end
