(* ===== verification/Consensus_Relation.thy ===== *)
theory Consensus_Relation
  imports Consensus_Frames
begin

text \<open>
  How properties of \<open>cycle\<close> are proved. \<open>cycle_relation\<close> is the contract of a preorder that
  every elementary step respects; it then relates the arguments and the result of \<open>cycle\<close> and
  of the operations that are mutually recursive with it. The first interpretation bounds the
  recursion, so that \<open>cycle\<close> satisfies its recursive equation; the others are the invariants
  of the following theories.
\<close>

section \<open>Phases\<close>

abbreviation stale :: "instant \<Rightarrow> instant \<Rightarrow> bool" where
  "stale now start \<equiv> start + from_millis (int (snd ELECTION_TIMEOUT)) \<le> now"

text \<open>An upper bound of the calls of \<open>cycle\<close> that are nested before a leader starts to promote.\<close>

definition phase :: "cmodule \<Rightarrow> tick \<Rightarrow> nat" where
  "phase s t = (case cm_state s of
      Follower f \<Rightarrow> if cm_draining s \<noteq> None \<or> \<not> can_be_leader s then 1 else 3
    | Candidate c \<Rightarrow>
        if duration_since (tk_time t) (ca_election_start c) \<ge> ca_election_timeout c then 3
        else (case ca_main_vote_start c of None \<Rightarrow> 2 | Some m \<Rightarrow> if stale (tk_time t) m then 4 else 2)
    | Leader l \<Rightarrow> if stale (tk_time t) (ld_lease_start l) then 3 else 1)"

definition cycle_rank :: "cmodule \<Rightarrow> tick \<Rightarrow> nat" where
  "cycle_rank s t = promotions_left s + phase s t"

lemma fold_keep_property:
  "(\<And>x a. P a \<Longrightarrow> P (f x a)) \<Longrightarrow> P a \<Longrightarrow> P (fold f xs a)"
  by (induction xs arbitrary: a) auto

lemma server_to_promote_aspiring:
  assumes "server_to_promote s = Some sid"
  shows "server_role (cm_conf s) sid = ASPIRING"
proof -
  let ?P = "\<lambda>a. \<forall>i. a = Some i \<longrightarrow> server_role (cm_conf s) i = ASPIRING"
  obtain l where l: "cm_state s = Leader l"
    using assms by (auto simp: server_to_promote_def split: consensus_state.splits)
  have "?P (server_to_promote s)"
    unfolding server_to_promote_def l consensus_state.case
    by (rule fold_keep_property) (auto split: if_splits)
  with assms show ?thesis by simp
qed

section \<open>Relations that a cycle respects\<close>

text \<open>The entries that \<open>cycle\<close> proposes itself: a new leader's no-op and the promotion of a server.\<close>

definition internal_proposal :: "cmodule \<Rightarrow> log_entry_data \<Rightarrow> bool" where
  "internal_proposal s data \<longleftrightarrow> data = Noop True
     \<or> (\<exists>sid. data = Config (AddMember sid) \<and> server_role (cm_conf s) sid = ASPIRING)"

definition obeys :: "(cmodule \<times> tick \<Rightarrow> cmodule \<times> tick \<Rightarrow> bool) \<Rightarrow> handler \<Rightarrow> bool" where
  "obeys R f \<longleftrightarrow> (\<forall>s t s' t'. f s t = Some (s', t') \<longrightarrow> R (s, t) (s', t'))"

locale cycle_relation =
  fixes R :: "cmodule \<times> tick \<Rightarrow> cmodule \<times> tick \<Rightarrow> bool"
  assumes refl: "R p p"
    and trans: "R p q \<Longrightarrow> R q r \<Longrightarrow> R p r"
    and next_tick: "R (s, t) (s, set_next_tick d t)"
    and reset: "cm_draining s \<noteq> None \<or> \<not> can_be_leader s \<Longrightarrow> reset_to_follower s t = Some (s', t') \<Longrightarrow>
      R (s, t) (s', t')"
    and candidate: "phase s t = 3 \<Longrightarrow> start_candidate None s t = Some (s', t') \<Longrightarrow> R (s, t) (s', t')"
    and vote: "cm_state s = Candidate c \<Longrightarrow> main_vote c s t = Some (s', t', st) \<Longrightarrow> R (s, t) (s', t')"
    and lead: "cm_state s = Candidate c \<Longrightarrow> ca_main_vote_start c = Some m \<Longrightarrow>
      duration_since (tk_time t) (ca_election_start c) < ca_election_timeout c \<Longrightarrow>
      cm_majority s \<le> vote_count s c \<Longrightarrow> R (s, t) (become_leader m s, t)"
    and append: "internal_proposal s data \<Longrightarrow> cm_state s = Leader l \<Longrightarrow> propose_guard s data None = Some None \<Longrightarrow>
      append_proposal data l s t = Some (s', t', pos) \<Longrightarrow> R (s, t) (s', t')"
    and commit: "cm_state s = Leader l \<Longrightarrow> can_be_leader s \<Longrightarrow> leader_commit l s t = Some (s', t', x) \<Longrightarrow>
      R (s, t) (s', t')"
    and round: "cm_state s = Leader l \<Longrightarrow> leader_round s t = Some (s', t', d) \<Longrightarrow> R (s, t) (s', t')"
begin

lemma obeysI: "(\<And>s t s' t'. f s t = Some (s', t') \<Longrightarrow> R (s, t) (s', t')) \<Longrightarrow> obeys R f"
  by (simp add: obeys_def)

lemma obeysD: "obeys R f \<Longrightarrow> f s t = Some (s', t') \<Longrightarrow> R (s, t) (s', t')"
  by (simp add: obeys_def)

lemma propose_obeys:
  assumes "obeys R cyc" "propose_entry_with cyc data rd s t = Some (s', t', res)"
    and step: "\<And>l s1 t1 pos. cm_state s = Leader l \<Longrightarrow> propose_guard s data rd = Some None \<Longrightarrow>
      append_proposal data l s t = Some (s1, t1, pos) \<Longrightarrow> R (s, t) (s1, t1)"
  shows "R (s, t) (s', t')"
proof (cases "cm_state s")
  case (Leader l)
  from assms(2) Leader obtain rejected where g: "propose_guard s data rd = Some rejected"
    by (auto simp: propose_entry_with_def bind_eq_Some_conv)
  show ?thesis
  proof (cases rejected)
    case None
    with assms(2) Leader g obtain s1 t1 pos where a: "append_proposal data l s t = Some (s1, t1, pos)"
      and c: "cyc s1 t1 = Some (s', t')"
      by (auto simp: propose_entry_with_def bind_eq_Some_conv)
    show ?thesis using trans [OF step [OF Leader _ a] obeysD [OF assms(1) c]] g None by simp
  next
    case (Some e)
    with assms(2) Leader g show ?thesis by (auto simp: propose_entry_with_def refl)
  qed
qed (use assms(2) in \<open>auto simp: propose_entry_with_def refl\<close>)

lemma propose_or_panicD:
  assumes "propose_or_panic cyc data s t = Some (s', t')"
  obtains pos where "propose_entry_with cyc data None s t = Some (s', t', Inr pos)"
  using assms by (auto simp: propose_or_panic_def split: Option.bind_splits sum.splits)

lemma propose_or_panic_obeys:
  assumes "obeys R cyc" "internal_proposal s data" "propose_or_panic cyc data s t = Some (s', t')"
  shows "R (s, t) (s', t')"
  using assms(3) propose_obeys [OF assms(1) _ append [OF assms(2)]] by (elim propose_or_panicD)

lemma become_candidate_obeys:
  assumes "obeys R cyc" "phase s t = 3" "become_candidate cyc None s t = Some (s', t')"
  shows "R (s, t) (s', t')"
  using assms(3) trans [OF candidate [OF assms(2)] obeysD [OF assms(1)]]
  by (auto simp: become_candidate_def bind_eq_Some_conv)

lemma follower_obeys:
  assumes "obeys R cyc" "cm_state s = Follower f" "cycle_follower cyc f s t = Some (s', t')"
  shows "R (s, t) (s', t')"
proof -
  let ?e = "duration_since (tk_time t) (fo_last_heartbeat f)"
  consider (blocked) "\<not> can_be_leader s \<or> cm_draining s \<noteq> None"
    | (elect) "can_be_leader s" "cm_draining s = None" "?e \<ge> fo_election_timeout f \<or> length (servers (cm_conf s)) = 1"
    | (wait) "can_be_leader s" "cm_draining s = None" "\<not> (?e \<ge> fo_election_timeout f \<or> length (servers (cm_conf s)) = 1)"
    by blast
  then show ?thesis
  proof cases
    case blocked
    then obtain t1 where "reset_to_follower s t = Some (s', t1)" "t' = set_next_tick (from_secs 2) t1"
      using assms(3) by (auto simp: cycle_follower_def Let_def bind_eq_Some_conv)
    then show ?thesis using trans [OF reset next_tick, of s t s' t1] blocked by blast
  next
    case elect
    then have "phase s t = 3" by (simp add: phase_def assms(2))
    with elect show ?thesis using assms(3) become_candidate_obeys [OF assms(1)]
      by (simp add: cycle_follower_def Let_def)
  next
    case wait
    then show ?thesis using assms(3) next_tick by (auto simp: cycle_follower_def Let_def)
  qed
qed

lemma candidate_obeys:
  assumes "obeys R cyc" "cm_state s = Candidate c" "cycle_candidate cyc c s t = Some (s', t')"
  shows "R (s, t) (s', t')"
proof (cases "duration_since (tk_time t) (ca_election_start c) \<ge> ca_election_timeout c")
  case True
  then have "phase s t = 3" by (simp add: phase_def assms(2))
  with True show ?thesis using assms(3) become_candidate_obeys [OF assms(1)]
    by (simp add: cycle_candidate_def)
next
  case False
  let ?t0 = "set_next_tick (ca_election_timeout c - duration_since (tk_time t) (ca_election_start c)) t"
  from False assms(3) obtain s1 t1 started where v: "main_vote c s ?t0 = Some (s1, t1, started)"
    by (auto simp: cycle_candidate_def Let_def bind_eq_Some_conv)
  have one: "R (s, t) (s1, t1)" by (rule trans [OF next_tick vote [OF assms(2) v]])
  show ?thesis
  proof (cases "started = None \<or> \<not> cm_majority s \<le> vote_count s c")
    case True
    with False assms(3) v one show ?thesis
      by (auto simp: cycle_candidate_def Let_def split: option.splits)
  next
    case won: False
    then obtain m where m: "started = Some m" "cm_majority s \<le> vote_count s c" by auto
    from v m have s1: "cm_state s1 = Candidate (c\<lparr>ca_main_vote_start := Some m\<rparr>)" "tk_time t1 = tk_time t"
      "vote_count s1 (c\<lparr>ca_main_vote_start := Some m\<rparr>) = vote_count s c" "cm_majority s1 = cm_majority s"
      by (auto elim!: main_vote_cases simp: assms(2) vote_count_def have_self_voted_def cm_majority_def)
    have two: "R (s1, t1) (become_leader m s1, t1)"
      using lead [OF s1(1), of m t1] False m(2) by (simp add: s1)
    from False assms(3) v m obtain s3 t3 where
      three: "(if cm_commit_index (become_leader m s1) < cm_last_index s1
        then propose_or_panic cyc (Noop True) (become_leader m s1) t1 else Some (become_leader m s1, t1)) = Some (s3, t3)"
      and four: "cyc s3 t3 = Some (s', t')"
      by (auto simp: cycle_candidate_def Let_def bind_eq_Some_conv split: if_splits)
    have "R (become_leader m s1, t1) (s3, t3)"
      using three propose_or_panic_obeys [OF assms(1), of _ "Noop True"] refl
      by (simp add: internal_proposal_def split: if_splits)
    then show ?thesis using one two obeysD [OF assms(1) four] trans by blast
  qed
qed

lemma leader_obeys:
  assumes "obeys R cyc" "cm_state s = Leader l" "cycle_leader cyc l s t = Some (s', t')"
  shows "R (s, t) (s', t')"
proof -
  from assms(3) obtain s1 t1 x where c: "can_be_leader s" "leader_commit l s t = Some (s1, t1, x)"
    by (auto simp: cycle_leader_def bind_eq_Some_conv)
  then have one: "R (s, t) (s1, t1)" using commit [OF assms(2)] by blast
  from c(2) have s1: "cm_state s1 = Leader (l\<lparr>ld_lease_start := x\<rparr>)"
    by (rule leader_commitE [OF _ assms(2)]) simp
  show ?thesis
  proof (cases "stale (tk_time t1) x")
    case True
    then have p: "phase s1 t1 = 3" by (simp add: phase_def s1)
    show ?thesis
    proof (cases "cm_draining s1 = None")
      case None: True
      then have "become_candidate cyc None s1 t1 = Some (s', t')"
        using True c assms(3) by (simp add: cycle_leader_def)
      then show ?thesis using trans [OF one become_candidate_obeys [OF assms(1) p]] by blast
    next
      case False
      with True c assms(3) obtain s2 t2 where "reset_to_follower s1 t1 = Some (s2, t2)" "cyc s2 t2 = Some (s', t')"
        by (auto simp: cycle_leader_def become_follower_def bind_eq_Some_conv)
      then show ?thesis using trans [OF one trans [OF reset obeysD [OF assms(1)]]] False by blast
    qed
  next
    case False
    with c assms(3) obtain s2 t2 d where r: "leader_round s1 t1 = Some (s2, t2, d)"
      by (auto simp: cycle_leader_def bind_eq_Some_conv)
    then have two: "R (s, t) (s2, t2)" using trans [OF one round [OF s1]] by blast
    show ?thesis
    proof (cases "if cs_pending (cm_config s2) = None \<and> cm_draining s2 = None then server_to_promote s2 else None")
      case None
      with False c assms(3) r have "(s', t') = (s2, set_next_tick d t2)" by (simp add: cycle_leader_def)
      then show ?thesis using trans [OF two next_tick] by simp
    next
      case (Some sid)
      with False c assms(3) r have "propose_or_panic cyc (Config (AddMember sid)) s2 t2 = Some (s', t')"
        by (simp add: cycle_leader_def)
      moreover have "internal_proposal s2 (Config (AddMember sid))"
        using Some server_to_promote_aspiring by (auto simp: internal_proposal_def split: if_splits)
      ultimately show ?thesis using trans [OF two] propose_or_panic_obeys [OF assms(1)] by blast
    qed
  qed
qed

lemma body_obeys: "obeys R cyc \<Longrightarrow> obeys R (cycle_body cyc)"
proof (rule obeysI)
  fix s t s' t' assume a: "obeys R cyc" "cycle_body cyc s t = Some (s', t')"
  show "R (s, t) (s', t')"
  proof (cases "server_role (cm_conf s) (cm_id s) = UNKNOWN")
    case True
    with a(2) show ?thesis using next_tick by (auto simp: cycle_body_def cycle_unknown_def bind_eq_Some_conv)
  next
    case False
    with a show ?thesis
      by (cases "cm_state s")
        (auto simp: cycle_body_def intro: follower_obeys candidate_obeys leader_obeys)
  qed
qed

lemma iterate_obeys: "obeys R ((cycle_body ^^ n) (\<lambda>_ _. None))"
  by (induction n) (auto intro: body_obeys obeysI)

lemma cycle_obeys: "cycle s t = Some (s', t') \<Longrightarrow> R (s, t) (s', t')"
  unfolding cycle_def by (rule obeysD [OF iterate_obeys])

lemma cycle_obeys': "obeys R cycle"
  by (rule obeysI) (rule cycle_obeys)

end

section \<open>The depth of the recursion\<close>

lemma num_aspiring_modify_first:
  "server_in vs sid = Some v \<Longrightarrow> srv_role v = ASPIRING \<Longrightarrow>
   length (filter (\<lambda>v. srv_role v = ASPIRING) (modify_first sid (\<lambda>v. v\<lparr>srv_role := MEMBER\<rparr>) vs)) + 1
     = length (filter (\<lambda>v. srv_role v = ASPIRING) vs)"
  by (induction vs) (auto split: if_splits)

lemma num_aspiring_promote:
  "server_role cfg sid = ASPIRING \<Longrightarrow> num_aspiring (apply_change cfg (AddMember sid)) + 1 = num_aspiring cfg"
  using num_aspiring_modify_first [of "servers cfg" sid]
  by (auto simp: num_aspiring_def server_mut_def server_role_def server_of_def split: option.splits)

lemma promotions_left_append:
  assumes "append_proposal data l s t = Some (s', t', pos)"
  shows "promotions_left s' \<le> promotions_left s \<or> (\<exists>c. data = Config c)"
    and "data = Config (AddMember sid) \<Longrightarrow> server_role (cm_conf s) sid = ASPIRING \<Longrightarrow> promotions_left s' < promotions_left s"
proof -
  from assms obtain lm fs e q where a:
    "s' = s\<lparr>cm_state := Leader (l\<lparr>ld_followers := fs\<rparr>), cm_config := cs_apply (cm_config s) e (cm_commit_index s), cm_log_meta := lm\<rparr>"
    "le_pos e = pos" "le_data e = data" "pos = new_position (cm_term s) (cm_last_index s + 1)"
    "lm_append (cm_log_meta s) \<lparr>off_position = pos, off_sequence = q\<rparr> = Some lm"
    by (rule append_proposalE) blast
  have lst: "pos_index (off_position (lm_last lm)) = cm_last_index s + 1"
    using lm_append_last [OF a(5)] a(4) by simp
  show "promotions_left s' \<le> promotions_left s \<or> (\<exists>c. data = Config c)"
    using a lst by (auto simp: promotions_left_def cs_apply_def Let_def split: log_entry_data.splits)
  show "promotions_left s' < promotions_left s"
    if d: "data = Config (AddMember sid)" "server_role (cm_conf s) sid = ASPIRING"
    using a lst d num_aspiring_promote [OF d(2)]
    by (auto simp: promotions_left_def cs_apply_def Let_def simp del: apply_change.simps)
qed

definition rank_le :: "cmodule \<times> tick \<Rightarrow> cmodule \<times> tick \<Rightarrow> bool" where
  "rank_le p q \<longleftrightarrow> tk_time (snd q) = tk_time (snd p) \<and> phase (fst q) (snd q) \<le> phase (fst p) (snd p)
     \<and> promotions_left (fst q) \<le> promotions_left (fst p)"

lemma start_candidate_phase:
  assumes "start_candidate a s t = Some (s', t')"
  shows "tk_time t' = tk_time t" "phase s' t' = 2" "promotions_left s' = promotions_left s"
proof -
  from assms obtain c m b ms r where
    "s' = s\<lparr>cm_meta := m, cm_state := Candidate c, cm_last_request_id := cm_last_request_id s + 1\<rparr>"
    "t' = t\<lparr>tk_meta := b, tk_messages := tk_messages t @ ms, tk_rng := r\<rparr>"
    "ca_election_start c = tk_time t" "ca_main_vote_start c = None" "from_millis 400 \<le> ca_election_timeout c"
    by (rule start_candidateE) blast
  then show "tk_time t' = tk_time t" "phase s' t' = 2" "promotions_left s' = promotions_left s"
    by (simp_all add: phase_def promotions_left_def from_millis_def)
qed

lemma become_leader_phase:
  "phase (become_leader m s) t = (if stale (tk_time t) m then 3 else 1)"
  "promotions_left (become_leader m s) = promotions_left s"
  by (simp_all add: become_leader_def phase_def promotions_left_def)

lemma election_timeout_pos [simp]: "0 < from_millis (int (snd ELECTION_TIMEOUT))"
  by (simp add: from_millis_def ELECTION_TIMEOUT_def)

lemma not_stale_now: "\<not> stale now now"
  by (simp add: not_le)

lemma leader_commit_rank:
  assumes "leader_commit l s t = Some (s', t', x)" "cm_state s = Leader l"
  shows "tk_time t' = tk_time t" "phase s' t' \<le> phase s t" "promotions_left s' = promotions_left s"
    "cm_state s' = Leader (l\<lparr>ld_lease_start := x\<rparr>)"
proof -
  from assms(1) obtain ci cfg pc pi b b' where
    u: "s' = s\<lparr>cm_meta := (cm_meta s)\<lparr>commit_index := ci\<rparr>, cm_config := cfg, cm_pending_conflict := pc,
            cm_pending_commit_index := pi, cm_state := Leader (l\<lparr>ld_lease_start := x\<rparr>)\<rparr>"
    "t' = t\<lparr>tk_meta := b, tk_config := b'\<rparr>"
    "cfg = cm_config s \<or> cfg = fst (cs_commit (cm_config s) ci)" "x = tk_time t \<or> ld_lease_start l \<le> x"
    by (rule leader_commitE [OF _ assms(2)]) blast
  from u show "tk_time t' = tk_time t" "cm_state s' = Leader (l\<lparr>ld_lease_start := x\<rparr>)" by simp_all
  from u(3) show "promotions_left s' = promotions_left s"
    by (auto simp: u(1) promotions_left_def cs_commit_value)
  have "\<not> stale (tk_time t) x" if "\<not> stale (tk_time t) (ld_lease_start l)"
    using u(4) that not_stale_now by fastforce
  then show "phase s' t' \<le> phase s t" by (simp add: u(1,2) phase_def assms(2))
qed

lemma leader_round_rank:
  assumes "leader_round s t = Some (s', t', d)"
  shows "tk_time t' = tk_time t" "phase s' t' = phase s t" "promotions_left s' = promotions_left s"
  using assms by (auto elim!: leader_roundE simp: phase_def promotions_left_def)

lemma reset_rank:
  assumes "cm_draining s \<noteq> None \<or> \<not> can_be_leader s" "reset_to_follower s t = Some (s', t')"
  shows "tk_time t' = tk_time t" "phase s' t' = 1" "promotions_left s' = promotions_left s"
  using assms by (auto elim!: reset_to_followerE simp: phase_def promotions_left_def can_be_leader_def)

lemma phase_pos: "0 < phase s t"
  by (simp add: phase_def split: consensus_state.splits option.splits)

lemma main_vote_rank:
  assumes "main_vote c s t = Some (s', t', st)" "cm_state s = Candidate c"
  shows "tk_time t' = tk_time t" "phase s' t' \<le> phase s t" "promotions_left s' = promotions_left s"
  using assms
  by (auto elim!: main_vote_cases simp: phase_def promotions_left_def
      not_le split: option.splits)

lemma phase_next_tick [simp]: "phase s (set_next_tick d t) = phase s t"
  unfolding phase_def tick_ops_sel ..

lemma append_rank:
  assumes "append_proposal data l s t = Some (s', t', pos)" "cm_state s = Leader l"
  shows "tk_time t' = tk_time t" "phase s' t' = phase s t"
    "internal_proposal s data \<Longrightarrow> promotions_left s' \<le> promotions_left s"
  using assms(1) promotions_left_append [OF assms(1)]
  by (auto elim!: append_proposalE simp: phase_def assms(2)) (auto simp: internal_proposal_def less_imp_le)

interpretation rank: cycle_relation rank_le
proof
  fix s s' :: cmodule and t t' :: tick and data l pos
  assume "internal_proposal s data" "append_proposal data l s t = Some (s', t', pos)" "cm_state s = Leader l"
  then show "rank_le (s, t) (s', t')" by (simp add: rank_le_def append_rank)
next
  fix s :: cmodule and t :: tick and c m
  assume "cm_state s = Candidate c" "ca_main_vote_start c = Some m"
    "duration_since (tk_time t) (ca_election_start c) < ca_election_timeout c"
  then show "rank_le (s, t) (become_leader m s, t)"
    by (simp add: rank_le_def become_leader_phase) (simp add: phase_def)
qed (auto simp: rank_le_def start_candidate_phase leader_commit_rank leader_round_rank reset_rank main_vote_rank
    Suc_le_eq phase_pos)

section \<open>The recursive equation\<close>

lemma propose_or_panic_cong:
  assumes "\<And>l s1 t1 pos. cm_state s = Leader l \<Longrightarrow> append_proposal data l s t = Some (s1, t1, pos) \<Longrightarrow> f s1 t1 = g s1 t1"
  shows "propose_or_panic f data s t = propose_or_panic g data s t"
proof (cases "cm_state s")
  case (Leader l)
  have "(do { (s1, t1, pos) \<leftarrow> append_proposal data l s t; (s2, t2) \<leftarrow> f s1 t1; Some (s2, t2, Inr pos :: propose_error + proposal) })
      = (do { (s1, t1, pos) \<leftarrow> append_proposal data l s t; (s2, t2) \<leftarrow> g s1 t1; Some (s2, t2, Inr pos) })"
    using assms [OF Leader] by (auto intro!: bind_option_cong)
  then show ?thesis
    unfolding propose_or_panic_def propose_entry_with_def Leader consensus_state.case by simp
qed (simp_all add: propose_or_panic_def propose_entry_with_def)

lemma become_candidate_cong:
  assumes "\<And>s1 t1. start_candidate a s t = Some (s1, t1) \<Longrightarrow> f s1 t1 = g s1 t1"
  shows "become_candidate f a s t = become_candidate g a s t"
  using assms by (auto simp: become_candidate_def intro!: bind_option_cong)

lemma become_candidate_deeper:
  assumes "phase s t = 3" "\<And>s' t'. cycle_rank s' t' < cycle_rank s t \<Longrightarrow> f s' t' = g s' t'"
  shows "become_candidate f None s t = become_candidate g None s t"
proof (rule become_candidate_cong)
  fix s1 t1 assume "start_candidate None s t = Some (s1, t1)"
  then have "cycle_rank s1 t1 < cycle_rank s t"
    using start_candidate_phase assms(1) by (simp add: cycle_rank_def)
  then show "f s1 t1 = g s1 t1" by (rule assms(2))
qed

lemma candidate_cong:
  assumes "cm_state s = Candidate c"
    and eq: "\<And>s' t'. cycle_rank s' t' < cycle_rank s t \<Longrightarrow> f s' t' = g s' t'"
    and le: "\<And>s' t' s'' t''. cycle_rank s' t' < cycle_rank s t \<Longrightarrow> g s' t' = Some (s'', t'') \<Longrightarrow> rank_le (s', t') (s'', t'')"
  shows "cycle_candidate f c s t = cycle_candidate g c s t"
proof (cases "duration_since (tk_time t) (ca_election_start c) \<ge> ca_election_timeout c")
  case True
  then have "phase s t = 3" by (simp add: phase_def assms(1))
  then have "become_candidate f None s t = become_candidate g None s t"
    by (rule become_candidate_deeper) (rule eq)
  with True show ?thesis by (simp add: cycle_candidate_def)
next
  case False
  let ?t0 = "set_next_tick (ca_election_timeout c - duration_since (tk_time t) (ca_election_start c)) t"
  have "(do { (s3, t3) \<leftarrow> (if cm_commit_index (become_leader m s1) < cm_last_index s1
             then propose_or_panic f (Noop True) (become_leader m s1) t1 else Some (become_leader m s1, t1)); f s3 t3 })
      = (do { (s3, t3) \<leftarrow> (if cm_commit_index (become_leader m s1) < cm_last_index s1
             then propose_or_panic g (Noop True) (become_leader m s1) t1 else Some (become_leader m s1, t1)); g s3 t3 })"
    if v: "main_vote c s ?t0 = Some (s1, t1, Some m)" for s1 t1 m
  proof -
    let ?l = "become_leader m s1"
    have s1: "cm_state s1 = Candidate (c\<lparr>ca_main_vote_start := Some m\<rparr>)"
      using v by (auto elim!: main_vote_cases simp: assms(1))
    have m: "tk_time t1 = tk_time t" "phase s1 t1 \<le> phase s t" "promotions_left s1 = promotions_left s"
      using main_vote_rank [OF v assms(1)] by simp_all
    have "phase ?l t1 < phase s1 t1"
      using False m(1) by (simp add: become_leader_phase) (simp add: phase_def s1)
    then have l: "cycle_rank ?l t1 < cycle_rank s t"
      using m by (simp add: cycle_rank_def become_leader_phase(2))
    obtain l where L: "cm_state ?l = Leader l" by (simp add: become_leader_def)
    have noop: "cycle_rank s2 t2 < cycle_rank s t" "cycle_rank s2 t2 \<le> cycle_rank ?l t1"
      if "append_proposal (Noop True) l ?l t1 = Some (s2, t2, pos)" for s2 t2 pos
      using append_rank [OF that L] l by (simp_all add: cycle_rank_def internal_proposal_def)
    have p: "propose_or_panic f (Noop True) ?l t1 = propose_or_panic g (Noop True) ?l t1"
      by (rule propose_or_panic_cong) (auto simp: L intro!: eq dest: noop(1))
    have q: "cycle_rank s3 t3 < cycle_rank s t" if three: "propose_or_panic g (Noop True) ?l t1 = Some (s3, t3)" for s3 t3
    proof -
      from three obtain s2 t2 pos where a: "append_proposal (Noop True) l ?l t1 = Some (s2, t2, pos)" "g s2 t2 = Some (s3, t3)"
        by (auto simp: propose_or_panic_def propose_entry_with_def L
            split: Option.bind_splits sum.splits option.splits)
      have "rank_le (s2, t2) (s3, t3)" by (rule le [OF noop(1) [OF a(1)] a(2)])
      then show ?thesis using noop(1) [OF a(1)] by (simp add: rank_le_def cycle_rank_def)
    qed
    have r: "f s3 t3 = g s3 t3" if "(if cm_commit_index ?l < cm_last_index s1
        then propose_or_panic g (Noop True) ?l t1 else Some (?l, t1)) = Some (s3, t3)" for s3 t3
      by (rule eq) (use that l q in \<open>auto split: if_splits\<close>)
    show ?thesis unfolding p by (rule bind_option_cong [OF refl]) (auto dest: r)
  qed
  then show ?thesis using False
    unfolding cycle_candidate_def Let_def
    by (intro if_cong refl bind_option_cong) (auto split: option.split)
qed

lemma follower_cong:
  assumes "cm_state s = Follower f0" and eq: "\<And>s' t'. cycle_rank s' t' < cycle_rank s t \<Longrightarrow> f s' t' = g s' t'"
  shows "cycle_follower f f0 s t = cycle_follower g f0 s t"
proof (cases "\<not> can_be_leader s \<or> cm_draining s \<noteq> None")
  case False
  then have "phase s t = 3" by (simp add: phase_def assms(1))
  then have "become_candidate f None s t = become_candidate g None s t"
    by (rule become_candidate_deeper) (rule eq)
  then show ?thesis by (simp add: cycle_follower_def Let_def)
qed (simp add: cycle_follower_def Let_def)

lemma become_follower_cong:
  assumes "\<And>s1 t1. reset_to_follower s t = Some (s1, t1) \<Longrightarrow> f s1 t1 = g s1 t1"
  shows "become_follower f s t = become_follower g s t"
  using assms by (auto simp: become_follower_def intro!: bind_option_cong)

lemma leader_cong:
  assumes "cm_state s = Leader l" and eq: "\<And>s' t'. cycle_rank s' t' < cycle_rank s t \<Longrightarrow> f s' t' = g s' t'"
  shows "cycle_leader f l s t = cycle_leader g l s t"
proof -
  have "(if stale (tk_time t1) x
         then if cm_draining s1 \<noteq> None then become_follower f s1 t1 else become_candidate f None s1 t1
         else do { (s2, t2, next_heartbeat) \<leftarrow> leader_round s1 t1;
             case (if cs_pending (cm_config s2) = None \<and> cm_draining s2 = None then server_to_promote s2 else None) of
               Some sid \<Rightarrow> propose_or_panic f (Config (AddMember sid)) s2 t2
             | None \<Rightarrow> Some (s2, set_next_tick next_heartbeat t2) })
      = (if stale (tk_time t1) x
         then if cm_draining s1 \<noteq> None then become_follower g s1 t1 else become_candidate g None s1 t1
         else do { (s2, t2, next_heartbeat) \<leftarrow> leader_round s1 t1;
             case (if cs_pending (cm_config s2) = None \<and> cm_draining s2 = None then server_to_promote s2 else None) of
               Some sid \<Rightarrow> propose_or_panic g (Config (AddMember sid)) s2 t2
             | None \<Rightarrow> Some (s2, set_next_tick next_heartbeat t2) })"
    if c: "leader_commit l s t = Some (s1, t1, x)" for s1 t1 x
  proof (cases "stale (tk_time t1) x")
    case True
    note r = leader_commit_rank [OF c assms(1)]
    have p3: "phase s1 t1 = 3" using True r(4) by (simp add: phase_def)
    have le: "cycle_rank s1 t1 \<le> cycle_rank s t" using r by (simp add: cycle_rank_def)
    have "become_candidate f None s1 t1 = become_candidate g None s1 t1"
      using p3 by (rule become_candidate_deeper) (rule eq, use le in linarith)
    moreover have "become_follower f s1 t1 = become_follower g s1 t1" if "cm_draining s1 \<noteq> None"
    proof (rule become_follower_cong)
      fix s2 t2 assume "reset_to_follower s1 t1 = Some (s2, t2)"
      then have "cycle_rank s2 t2 < cycle_rank s1 t1"
        using reset_rank [of s1 t1 s2 t2] that p3 by (simp add: cycle_rank_def)
      then show "f s2 t2 = g s2 t2" using le by (intro eq) linarith
    qed
    ultimately show ?thesis using True by simp
  next
    case False
    have "propose_or_panic f (Config (AddMember sid)) s2 t2 = propose_or_panic g (Config (AddMember sid)) s2 t2"
      if r: "leader_round s1 t1 = Some (s2, t2, d)" and sid: "server_to_promote s2 = Some sid" for s2 t2 d sid
    proof (rule propose_or_panic_cong)
      fix l2 s3 t3 pos assume a: "cm_state s2 = Leader l2" "append_proposal (Config (AddMember sid)) l2 s2 t2 = Some (s3, t3, pos)"
      have "promotions_left s3 < promotions_left s2"
        using promotions_left_append(2) [OF a(2) _ server_to_promote_aspiring [OF sid]] by simp
      moreover have "phase s3 t3 = phase s2 t2" using append_rank [OF a(2,1)] by simp
      ultimately have "cycle_rank s3 t3 < cycle_rank s t"
        using leader_round_rank [OF r] leader_commit_rank [OF c assms(1)] by (simp add: cycle_rank_def)
      then show "f s3 t3 = g s3 t3" by (rule eq)
    qed
    then show ?thesis using False
      by (intro if_cong refl bind_option_cong) (auto split: option.split)
  qed
  then show ?thesis
    unfolding cycle_leader_def Let_def
    by (intro if_cong refl bind_option_cong) (auto simp: not_le)
qed

lemma body_cong:
  assumes eq: "\<And>s' t'. cycle_rank s' t' < cycle_rank s t \<Longrightarrow> f s' t' = g s' t'"
    and le: "\<And>s' t' s'' t''. cycle_rank s' t' < cycle_rank s t \<Longrightarrow> g s' t' = Some (s'', t'') \<Longrightarrow> rank_le (s', t') (s'', t'')"
  shows "cycle_body f s t = cycle_body g s t"
proof (cases "cm_state s")
  case (Follower f0)
  from follower_cong [OF this eq] Follower show ?thesis by (simp add: cycle_body_def)
next
  case (Candidate c)
  from candidate_cong [OF this eq le] Candidate show ?thesis by (simp add: cycle_body_def)
next
  case (Leader l)
  from leader_cong [OF this eq] Leader show ?thesis by (simp add: cycle_body_def)
qed

text \<open>
  The fuel of \<open>cycle\<close> is enough: whatever the function is that the iteration starts from, a
  bound of at least the rank gives the same result, so the start is never called.
\<close>

lemma iterate_enough:
  "cycle_rank s t \<le> n \<Longrightarrow> cycle_rank s t \<le> m \<Longrightarrow> (cycle_body ^^ n) f s t = (cycle_body ^^ m) g s t"
proof (induction "cycle_rank s t" arbitrary: s t n m f g rule: less_induct)
  case less
  have "0 < cycle_rank s t" using phase_pos [of s t] by (simp add: cycle_rank_def)
  then obtain n' m' where n: "n = Suc n'" "m = Suc m'"
    using less.prems by (metis Suc_pred' order_less_le_trans)
  have eq: "(cycle_body ^^ n') f s' t' = (cycle_body ^^ m') g s' t'" if "cycle_rank s' t' < cycle_rank s t" for s' t'
    using less.hyps [OF that] that less.prems n by simp
  have le: "rank_le (s', t') (s'', t'')"
    if r: "cycle_rank s' t' < cycle_rank s t" "(cycle_body ^^ m') g s' t' = Some (s'', t'')" for s' t' s'' t''
  proof -
    have "(cycle_body ^^ m') g s' t' = (cycle_body ^^ m') (\<lambda>_ _. None) s' t'"
      using less.hyps [OF r(1)] r(1) less.prems n by simp
    then show ?thesis using rank.obeysD [OF rank.iterate_obeys] r(2) by metis
  qed
  show ?case unfolding n funpow.simps comp_apply by (rule body_cong [OF eq le])
qed

lemma cycle_rank_le_depth: "cycle_rank s t < cycle_depth s"
  by (simp add: cycle_rank_def cycle_depth_def phase_def split: consensus_state.splits option.splits)

lemma cycle_eq_iterate: "cycle_rank s t \<le> n \<Longrightarrow> cycle s t = (cycle_body ^^ n) f s t"
  unfolding cycle_def using cycle_rank_le_depth [of s t] by (intro iterate_enough) simp_all

lemma cycle_unfold: "cycle s t = cycle_body cycle s t"
proof -
  have "cycle s t = (cycle_body ^^ Suc (cycle_rank s t)) cycle s t"
    by (rule cycle_eq_iterate) simp
  also have "\<dots> = cycle_body ((cycle_body ^^ cycle_rank s t) cycle) s t" by simp
  also have "\<dots> = cycle_body cycle s t"
  proof (rule body_cong)
    fix s' t' assume "cycle_rank s' t' < cycle_rank s t"
    then show "(cycle_body ^^ cycle_rank s t) cycle s' t' = cycle s' t'"
      using cycle_eq_iterate [of s' t' "cycle_rank s t" cycle] by simp
  next
    fix s' t' s'' t'' assume "cycle s' t' = Some (s'', t'')"
    then show "rank_le (s', t') (s'', t'')" by (rule rank.cycle_obeys)
  qed
  finally show ?thesis .
qed

end
