(* ===== verification/Consensus_Events.thy ===== *)
theory Consensus_Events
  imports Consensus_Relation
begin

text \<open>
  Every entry point of \<open>ConsensusModule\<close> that changes its state, as an event, and the step
  relation of the module. \<open>handler_relation\<close> extends the contract of \<open>cycle_relation\<close> by the
  elementary steps of the handlers; a relation that keeps it relates the module before and
  after every event for which there is \<open>evidence\<close>, a condition on what the event brings from
  outside that the laws of the steps may rely on.
\<close>

section \<open>Events\<close>

datatype event =
    Ev_cycle
  | Ev_schedule_heartbeat
  | Ev_reset_follower instant
  | Ev_drain
  | Ev_propose log_entry_data "read_index option"
  | Ev_log_flushed log_sequence
  | Ev_log_discarded log_position
  | Ev_persisted_metadata metadata
  | Ev_request_vote request_vote_request
  | Ev_request_vote_callback server_id request_id bool request_vote_response
  | Ev_heartbeat heartbeat_request
  | Ev_heartbeat_callback server_id request_id "heartbeat_response option"
  | Ev_append_entries append_entries_request
  | Ev_append_entries_callback server_id request_id append_entries_response
  | Ev_append_entries_noresponse server_id request_id
  | Ev_install_snapshot install_snapshot_request
  | Ev_install_snapshot_callback server_id install_snapshot_request install_snapshot_response log_index
  | Ev_install_snapshot_noresponse server_id install_snapshot_request

definition drop_result :: "(cmodule \<times> tick \<times> 'r) option \<Rightarrow> (cmodule \<times> tick) option" where
  "drop_result r = map_option (\<lambda>(s, t, _). (s, t)) r"

fun handle :: "event \<Rightarrow> handler" where
  "handle Ev_cycle s t = cycle s t"
| "handle Ev_schedule_heartbeat s t = schedule_heartbeat s t"
| "handle (Ev_reset_follower now) s t = map_option (\<lambda>(s', r). (s', t\<lparr>tk_rng := r\<rparr>)) (reset_follower now (tk_rng t) s)"
| "handle Ev_drain s t = drain s t"
| "handle (Ev_propose data rd) s t = drop_result (propose_entry data rd s t)"
| "handle (Ev_log_flushed q) s t = log_flushed q s t"
| "handle (Ev_log_discarded p) s t = map_option (\<lambda>s'. (s', t)) (log_discarded p s)"
| "handle (Ev_persisted_metadata m) s t = persisted_metadata m s t"
| "handle (Ev_request_vote req) s t = drop_result (request_vote req s t)"
| "handle (Ev_request_vote_callback fid rid pre resp) s t = request_vote_callback fid rid pre resp s t"
| "handle (Ev_heartbeat req) s t = drop_result (heartbeat req s t)"
| "handle (Ev_heartbeat_callback fid rid resp) s t = heartbeat_callback fid rid resp s t"
| "handle (Ev_append_entries req) s t = drop_result (append_entries req s t)"
| "handle (Ev_append_entries_callback fid rid resp) s t = append_entries_callback fid rid resp s t"
| "handle (Ev_append_entries_noresponse fid rid) s t = append_entries_noresponse fid rid s t"
| "handle (Ev_install_snapshot req) s t = drop_result (install_snapshot req s t)"
| "handle (Ev_install_snapshot_callback fid req resp i) s t = install_snapshot_callback fid req resp i s t"
| "handle (Ev_install_snapshot_noresponse fid req) s t = install_snapshot_noresponse fid req s t"

lemma drop_result_Some [simp]: "drop_result r = Some (s, t) \<longleftrightarrow> (\<exists>x. r = Some (s, t, x))"
  by (auto simp: drop_result_def)

section \<open>Terms\<close>

definition term_le :: "cmodule \<times> tick \<Rightarrow> cmodule \<times> tick \<Rightarrow> bool" where
  "term_le p q \<longleftrightarrow> cm_term (fst p) \<le> cm_term (fst q) \<and> cm_id (fst q) = cm_id (fst p)"

lemma become_leader_sel [simp]:
  "cm_meta (become_leader m s) = cm_meta s" "cm_id (become_leader m s) = cm_id s"
  "cm_log_meta (become_leader m s) = cm_log_meta s" "cm_config (become_leader m s) = cm_config s"
  "cm_draining (become_leader m s) = cm_draining s" "cm_pending_commit_index (become_leader m s) = cm_pending_commit_index s"
  "cm_persisted_meta (become_leader m s) = cm_persisted_meta s"
  by (simp_all add: become_leader_def)

interpretation terms: cycle_relation term_le
  by unfold_locales
    (auto simp: term_le_def split: if_splits
      elim!: reset_to_followerE start_candidateE main_vote_cases append_proposalE leader_commitE leader_roundE)

lemma observe_term_ge: "observe_term term s t = Some (s', t') \<Longrightarrow> term \<le> cm_term s' \<and> cm_term s \<le> cm_term s' \<and> tk_time t' = tk_time t"
proof -
  assume a: "observe_term term s t = Some (s', t')"
  show ?thesis
  proof (cases "cm_term s < term")
    case True
    let ?s = "s\<lparr>cm_meta := (cm_meta s)\<lparr>current_term := term, voted_for := 0\<rparr>\<rparr>"
    from a True obtain s1 t1 where r: "reset_to_follower ?s (write_meta t) = Some (s1, t1)" and c: "cycle s1 t1 = Some (s', t')"
      by (auto simp: observe_term_def become_follower_def bind_eq_Some_conv)
    from r have "cm_term s1 = term" "tk_time t1 = tk_time t" by (auto elim!: reset_to_followerE)
    then show ?thesis using terms.cycle_obeys [OF c] rank.cycle_obeys [OF c] True
      by (simp add: term_le_def rank_le_def)
  qed (use a in \<open>auto simp: observe_term_def\<close>)
qed

section \<open>Relations that every event respects\<close>

locale handler_relation = cycle_relation R for R :: "cmodule \<times> tick \<Rightarrow> cmodule \<times> tick \<Rightarrow> bool" +
  fixes evidence :: "event \<Rightarrow> bool"
  assumes any_candidate: "start_candidate a s t = Some (s', t') \<Longrightarrow> R (s, t) (s', t')"
    and any_append: "evidence (Ev_propose data rd) \<Longrightarrow> cm_state s = Leader l \<Longrightarrow> propose_guard s data rd = Some None \<Longrightarrow>
      append_proposal data l s t = Some (s', t', pos) \<Longrightarrow> R (s, t) (s', t')"
    and new_term: "cm_term s < term \<Longrightarrow>
      reset_to_follower (s\<lparr>cm_meta := (cm_meta s)\<lparr>current_term := term, voted_for := 0\<rparr>\<rparr>) (write_meta t) = Some (s', t') \<Longrightarrow>
      R (s, t) (s', t')"
    and yield: "is_candidate (cm_state s) \<Longrightarrow> reset_to_follower s t = Some (s', t') \<Longrightarrow> R (s, t) (s', t')"
    and leader_update: "cm_state s = Leader l \<Longrightarrow> ld_lease_start l' = ld_lease_start l \<Longrightarrow>
      ld_min_read_index l' = ld_min_read_index l \<Longrightarrow> R (s, t) (s\<lparr>cm_state := Leader l'\<rparr>, t)"
    and follower_update: "cm_state s = Follower f \<Longrightarrow> R (s, t) (s\<lparr>cm_state := Follower f'\<rparr>, t)"
    and count: "evidence (Ev_request_vote_callback i rid pre resp) \<Longrightarrow> cm_state s = Candidate c \<Longrightarrow>
      cm_term s = rvr_term resp \<Longrightarrow> i \<noteq> cm_id s \<Longrightarrow>
      R (s, t) (s\<lparr>cm_state := Candidate (count_vote i pre (rvr_vote_granted resp) c)\<rparr>, t)"
    and grant: "cm_state s = Follower f \<Longrightarrow> rvq_term req \<le> cm_term s \<Longrightarrow> pre_vote_should_grant req (tk_time t) s \<Longrightarrow>
      R (s, t) (s\<lparr>cm_state := Follower f', cm_meta := (cm_meta s)\<lparr>voted_for := rvq_candidate_id req\<rparr>\<rparr>, write_meta t)"
    and hint_config: "evidence (Ev_request_vote_callback i rid pre resp) \<Longrightarrow> rvr_last_config_hint resp = Some snap \<Longrightarrow>
      cs_last_applied (cm_config s) < snap_last_applied snap \<Longrightarrow>
      R (s, t) (s\<lparr>cm_config := cs_from snap\<rparr>, write_config t)"
    and snapshot_config: "evidence (Ev_install_snapshot isq) \<Longrightarrow>
      cs_last_applied (cm_config s) < snap_last_applied (isq_last_config isq) \<Longrightarrow>
      R (s, t) (s\<lparr>cm_config := cs_from (isq_last_config isq)\<rparr>, write_config t)"
    and scan: "scan_entries es n s = Some (Inr (s', k, b)) \<Longrightarrow> R (s, t) (s', t)"
    and append_all: "evidence (Ev_append_entries aeq) \<Longrightarrow> append_new (drop k (aeq_entries aeq)) b q s t = Some (s', t', q', b') \<Longrightarrow>
      R (s, t) (s', t')"
    and commited: "update_commited i s t = Some (s', t') \<Longrightarrow> R (s, t) (s', t')"
    and flushed: "cm_log_last_flushed s \<le> q \<Longrightarrow> R (s, t) (s\<lparr>cm_log_last_flushed := q\<rparr>, t)"
    and set_persisted: "evidence (Ev_persisted_metadata m) \<Longrightarrow> R (s, t) (s\<lparr>cm_persisted_meta := m\<rparr>, t)"
    and set_draining: "cm_draining s = None \<Longrightarrow> R (s, t) (s\<lparr>cm_draining := Some d\<rparr>, t)"
    and set_rng: "R (s, t) (s, t\<lparr>tk_rng := r\<rparr>)"
begin

lemma then_cycle: "R (s, t) (s1, t1) \<Longrightarrow> cycle s1 t1 = Some (s', t') \<Longrightarrow> R (s, t) (s', t')"
  using trans cycle_obeys by blast

lemma propose_entry_obeys:
  "evidence (Ev_propose data rd) \<Longrightarrow> propose_entry data rd s t = Some (s', t', res) \<Longrightarrow> R (s, t) (s', t')"
  unfolding propose_entry_def
  by (rule propose_obeys [OF obeysI]) (auto intro: cycle_obeys any_append)

lemma propose_noop_obeys: "propose_or_panic cycle (Noop True) s t = Some (s', t') \<Longrightarrow> R (s, t) (s', t')"
  by (rule propose_or_panic_obeys [OF obeysI [OF cycle_obeys]]) (auto simp: internal_proposal_def)

lemma become_follower_yields:
  "is_candidate (cm_state s) \<Longrightarrow> become_follower cycle s t = Some (s', t') \<Longrightarrow> R (s, t) (s', t')"
  by (auto simp: become_follower_def bind_eq_Some_conv intro: then_cycle yield)

lemma become_candidate_any: "become_candidate cycle a s t = Some (s', t') \<Longrightarrow> R (s, t) (s', t')"
  by (auto simp: become_candidate_def bind_eq_Some_conv intro: then_cycle any_candidate)

lemma observe_term_obeys: "observe_term term s t = Some (s', t') \<Longrightarrow> R (s, t) (s', t')"
  by (auto simp: observe_term_def become_follower_def bind_eq_Some_conv refl split: if_splits
      intro: then_cycle new_term)

lemma enter_request_obeys: "enter_request term s t = Some (s', t') \<Longrightarrow> R (s, t) (s', t')"
  by (auto simp: enter_request_def bind_eq_Some_conv split: if_splits
      intro: observe_term_obeys trans [OF observe_term_obeys become_follower_yields])

lemma hear_leader_obeys: "hear_leader i now s = Inr s' \<Longrightarrow> R (s, t) (s', t)"
  by (auto simp: hear_leader_def split: consensus_state.splits intro: follower_update)

lemma hint_obeys:
  "evidence (Ev_request_vote_callback i rid pre resp) \<Longrightarrow> observe_last_config_hint resp s t = (s', t') \<Longrightarrow> R (s, t) (s', t')"
  using hint_config [of i rid pre resp "the (rvr_last_config_hint resp)" s t]
  by (auto simp: observe_last_config_hint_def cs_from_def refl split: option.splits if_splits)

lemma set_progress_obeys: "cm_state s = Leader l \<Longrightarrow> R (s, t) (set_progress s l i p, t)"
  unfolding set_progress_def by (rule leader_update) auto

lemma follower_progress_ofD: "follower_progress_of s i = Some (l, p) \<Longrightarrow> cm_state s = Leader l"
  by (auto simp: follower_progress_of_def split: consensus_state.splits)

lemma request_vote_obeys:
  assumes "request_vote req s0 t0 = Some (s', t', res)"
  shows "R (s0, t0) (s', t')"
proof -
  from assms obtain s t r where o: "observe_term (rvq_term req) s0 t0 = Some (s, t)" "pre_vote req (tk_time t) s = Some r"
    by (auto simp: request_vote_def bind_eq_Some_conv)
  have le: "rvq_term req \<le> cm_term s" using observe_term_ge [OF o(1)] by simp
  have g: "rvr_vote_granted r = pre_vote_should_grant req (tk_time t) s"
    using o(2) by (auto simp: pre_vote_def Let_def bind_eq_Some_conv)
  have "R (s, t) (s', t')"
  proof (cases "rvr_vote_granted r")
    case True
    with assms o obtain f where "cm_state s = Follower f"
      by (auto simp: request_vote_def split: consensus_state.splits)
    with assms o True g grant [OF _ le] show ?thesis by (auto simp: request_vote_def)
  next
    case False
    with assms o show ?thesis by (auto simp: request_vote_def refl)
  qed
  then show ?thesis using trans [OF observe_term_obeys [OF o(1)]] by blast
qed

lemma request_vote_callback_obeys:
  assumes ev: "evidence (Ev_request_vote_callback i rid pre resp)"
    and assms: "request_vote_callback i rid pre resp s0 t0 = Some (s', t')"
  shows "R (s0, t0) (s', t')"
proof -
  from assms obtain s1 t1 where o1: "observe_term (rvr_term resp) s0 t0 = Some (s1, t1)"
    by (auto simp: request_vote_callback_def bind_eq_Some_conv)
  obtain s t where "observe_last_config_hint resp s1 t1 = (s, t)" by fastforce
  note o = o1 this
  have one: "R (s0, t0) (s, t)" by (rule trans [OF observe_term_obeys [OF o(1)] hint_obeys [OF ev o(2)]])
  have "R (s, t) (s', t')"
    using assms o by (auto simp: request_vote_callback_def refl split: if_splits consensus_state.splits
        intro: then_cycle [OF count [OF ev]])
  then show ?thesis using trans one by blast
qed

lemma heartbeat_obeys:
  assumes "heartbeat req s0 t0 = Some (s', t', res)"
  shows "R (s0, t0) (s', t')"
proof -
  from assms obtain s t where e: "enter_request (hbq_term req) s0 t0 = Some (s, t)"
    by (auto simp: heartbeat_def bind_eq_Some_conv)
  have "R (s, t) (s', t')"
    using assms e by (auto simp: heartbeat_def Let_def refl split: if_splits sum.splits intro: hear_leader_obeys)
  then show ?thesis using trans enter_request_obeys [OF e] by blast
qed

lemma heartbeat_callback_obeys:
  assumes "heartbeat_callback i rid resp s0 t0 = Some (s', t')"
  shows "R (s0, t0) (s', t')"
proof -
  from assms obtain s t where o: "(case resp of Some r \<Rightarrow> observe_term (hbr_term r) s0 t0 | None \<Rightarrow> Some (s0, t0)) = Some (s, t)"
    by (auto simp: heartbeat_callback_def bind_eq_Some_conv)
  have one: "R (s0, t0) (s, t)" using o by (auto simp: refl split: option.splits intro: observe_term_obeys)
  have "R (s, t) (s', t')"
    using assms unfolding heartbeat_callback_def o
    by (auto simp: Let_def refl split: option.splits dest!: follower_progress_ofD
        intro: then_cycle [OF set_progress_obeys])
  then show ?thesis using trans one by blast
qed

lemma append_entries_callback_obeys:
  assumes "append_entries_callback i rid resp s0 t0 = Some (s', t')"
  shows "R (s0, t0) (s', t')"
proof -
  from assms obtain s t where o: "observe_term (aer_term resp) s0 t0 = Some (s, t)"
    by (auto simp: append_entries_callback_def bind_eq_Some_conv)
  have "R (s, t) (s', t')"
    using assms o
    by (auto simp: append_entries_callback_def Let_def refl split: option.splits if_splits dest!: follower_progress_ofD
        intro: then_cycle [OF set_progress_obeys] trans [OF set_progress_obeys propose_noop_obeys])
  then show ?thesis using trans observe_term_obeys [OF o] by blast
qed

lemma append_entries_noresponse_obeys:
  "append_entries_noresponse i rid s t = Some (s', t') \<Longrightarrow> R (s, t) (s', t')"
  by (auto simp: append_entries_noresponse_def refl split: option.splits if_splits dest!: follower_progress_ofD
      intro: then_cycle [OF set_progress_obeys])

lemma install_snapshot_obeys:
  assumes ev: "evidence (Ev_install_snapshot req)" and assms: "install_snapshot req s0 t0 = Some (s', t', res)"
  shows "R (s0, t0) (s', t')"
proof -
  from assms obtain s t where o: "observe_term (isq_term req) s0 t0 = Some (s, t)"
    by (auto simp: install_snapshot_def bind_eq_Some_conv)
  have "R (s, t) (s', t')"
    using assms o by (auto simp: install_snapshot_def Let_def refl split: if_splits intro: snapshot_config [OF ev])
  then show ?thesis using trans observe_term_obeys [OF o] by blast
qed

lemma install_snapshot_impl_obeys:
  assumes "install_snapshot_callback_impl i req resp ok n s0 t0 = Some (s', t')"
  shows "R (s0, t0) (s', t')"
proof -
  from assms obtain s t where o: "observe_term (isr_term resp) s0 t0 = Some (s, t)"
    by (auto simp: install_snapshot_callback_impl_def bind_eq_Some_conv)
  have "R (s, t) (s', t')"
    using assms o
    by (auto simp: install_snapshot_callback_impl_def refl split: option.splits if_splits dest!: follower_progress_ofD
        intro: then_cycle [OF set_progress_obeys])
  then show ?thesis using trans observe_term_obeys [OF o] by blast
qed

lemma follow_commit_obeys: "follow_commit ci n s t = Some (s', t') \<Longrightarrow> R (s, t) (s', t')"
  by (auto simp: follow_commit_def refl split: if_splits intro: commited)

lemma accept_entries_obeys:
  assumes ev: "evidence (Ev_append_entries req)" and assms: "accept_entries req term n b s t = Some (s', t', res)"
  shows "R (s, t) (s', t')"
proof -
  from assms obtain q s1 t1 q' b' ln s2 t2 where a: "append_new (drop n (aeq_entries req)) b q s t = Some (s1, t1, q', b')"
    "follow_commit (aeq_leader_commit req) ln s1 t1 = Some (s2, t2)"
    and r: "(s', t') = (s2, t2) \<or> become_candidate cycle (Some (aeq_term req)) s2 t2 = Some (s', t')"
    by (auto simp: accept_entries_def Let_def split: Option.bind_splits if_splits)
  have "R (s, t) (s2, t2)" by (rule trans [OF append_all [OF ev a(1)] follow_commit_obeys [OF a(2)]])
  then show ?thesis using r trans [OF _ become_candidate_any] by blast
qed

text \<open>What is left of \<open>append_entries\<close> once the leader has been heard.\<close>

lemma append_entries_obeys:
  assumes ev: "evidence (Ev_append_entries req)" and assms: "append_entries req s0 t0 = Some (s', t', res)"
  shows "R (s0, t0) (s', t')"
proof -
  from assms obtain s t where e: "enter_request (aeq_term req) s0 t0 = Some (s, t)"
    by (auto simp: append_entries_def bind_eq_Some_conv)
  have "R (s, t) (s', t')"
  proof (cases "aeq_term req < cm_term s")
    case True
    with assms e show ?thesis by (auto simp: append_entries_def Let_def refl)
  next
    case False
    show ?thesis
    proof (cases "hear_leader (aeq_leader_id req) (tk_time t) s")
      case (Inl err)
      with assms e False show ?thesis by (auto simp: append_entries_def Let_def refl bind_eq_Some_conv)
    next
      case (Inr s1)
      have heard: "R (s, t) (s1, t)" by (rule hear_leader_obeys [OF Inr])
      have "(s', t') = (s1, t) \<or> (\<exists>s2 k b. scan_entries (aeq_entries req) 0 s1 = Some (Inr (s2, k, b)) \<and>
          ((s', t') = (s2, t) \<or> accept_entries req (cm_term s) k b s2 t = Some (s', t', res)))"
        using assms e False Inr
        by (auto simp: append_entries_def Let_def split: Option.bind_splits option.splits if_splits sum.splits prod.splits)
      then show ?thesis using heard trans [OF heard scan] accept_entries_obeys [OF ev] trans by blast
    qed
  qed
  then show ?thesis using trans enter_request_obeys [OF e] by blast
qed

lemma reset_follower_obeys: "reset_follower now r s = Some (s', r') \<Longrightarrow> R (s, t) (s', t\<lparr>tk_rng := r'\<rparr>)"
  by (auto simp: reset_follower_def new_follower_eq refl split: consensus_state.splits
      intro: set_rng trans [OF follower_update set_rng])

lemma handle_obeys:
  assumes "handle ev s t = Some (s', t')" "\<nexists>p. ev = Ev_log_discarded p" "evidence ev"
  shows "R (s, t) (s', t')"
proof (cases ev)
  case Ev_schedule_heartbeat
  with assms show ?thesis
    by (auto simp: schedule_heartbeat_def refl split: consensus_state.splits
        intro: then_cycle [OF leader_update [where l' = "l\<lparr>ld_heartbeat_now := True\<rparr>" for l]])
next
  case Ev_drain
  with assms show ?thesis
    by (auto simp: drain_def refl split: if_splits intro: then_cycle [OF set_draining])
next
  case (Ev_log_flushed q)
  with assms show ?thesis
    by (auto simp: log_flushed_def bind_eq_Some_conv intro: then_cycle [OF flushed])
next
  case (Ev_persisted_metadata m)
  with assms show ?thesis by (auto simp: persisted_metadata_def intro: then_cycle [OF set_persisted])
next
  case (Ev_install_snapshot_noresponse i req)
  with assms show ?thesis by (auto simp: install_snapshot_noresponse_def intro: install_snapshot_impl_obeys)
next
  case (Ev_install_snapshot_callback i req resp n)
  with assms show ?thesis by (auto simp: install_snapshot_callback_def intro: install_snapshot_impl_obeys)
qed (use assms in \<open>auto intro: cycle_obeys reset_follower_obeys propose_entry_obeys request_vote_obeys
      request_vote_callback_obeys heartbeat_obeys heartbeat_callback_obeys append_entries_obeys
      append_entries_callback_obeys append_entries_noresponse_obeys install_snapshot_obeys\<close>)

end

end
