(* ===== verification/Consensus_Safety.thy ===== *)
theory Consensus_Safety
  imports Consensus_Events
begin

text \<open>
  Safety of the consensus module over all of its events, each by an interpretation of
  \<open>handler_relation\<close>: terms grow and a vote is final within its term, the commit index never
  falls, a change of the metadata is always announced in the tick, and the log metadata is
  what the announced entries make of it. The inductive predicate \<open>reachable\<close> collects the
  states of a module from its construction on.
\<close>

section \<open>Votes\<close>

definition vote_final :: "cmodule \<times> tick \<Rightarrow> cmodule \<times> tick \<Rightarrow> bool" where
  "vote_final p q \<longleftrightarrow> cm_id (fst q) = cm_id (fst p) \<and> cm_term (fst p) \<le> cm_term (fst q)
     \<and> (cm_term (fst p) = cm_term (fst q) \<longrightarrow> cm_voted_for (fst p) = 0 \<or> cm_voted_for (fst q) = cm_voted_for (fst p))"

lemma should_grant_vote:
  "pre_vote_should_grant req now s \<Longrightarrow> rvq_term req \<le> cm_term s \<Longrightarrow>
   cm_voted_for s = 0 \<or> cm_voted_for s = rvq_candidate_id req"
  by (auto simp: pre_vote_should_grant_def split: if_splits)

lemmas step_elims = reset_to_followerE start_candidateE main_vote_cases append_proposalE leader_commitE
  leader_roundE scan_entriesE append_newE update_commitedE

lemma vote_final_trans:
  assumes "vote_final p q" "vote_final q r"
  shows "vote_final p r"
proof -
  from assms have t: "cm_term (fst p) \<le> cm_term (fst q)" "cm_term (fst q) \<le> cm_term (fst r)"
    by (simp_all add: vote_final_def)
  have "cm_voted_for (fst p) = 0 \<or> cm_voted_for (fst r) = cm_voted_for (fst p)" if "cm_term (fst p) = cm_term (fst r)"
  proof -
    have "cm_voted_for (fst p) = 0 \<or> cm_voted_for (fst q) = cm_voted_for (fst p)"
      "cm_voted_for (fst q) = 0 \<or> cm_voted_for (fst r) = cm_voted_for (fst q)"
      using assms t that by (simp_all add: vote_final_def)
    then show ?thesis by auto
  qed
  then show ?thesis using assms t by (simp add: vote_final_def)
qed

lemma vote_final_same: "cm_id s' = cm_id s \<Longrightarrow> cm_term s' = cm_term s \<Longrightarrow> cm_voted_for s' = cm_voted_for s \<Longrightarrow>
   vote_final (s, t) (s', t')"
  by (simp add: vote_final_def)

lemma vote_final_later: "cm_id s' = cm_id s \<Longrightarrow> cm_term s < cm_term s' \<Longrightarrow> vote_final (s, t) (s', t')"
  by (simp add: vote_final_def)

lemma start_candidate_vote_final:
  assumes "start_candidate a s t = Some (s', t')"
  shows "vote_final (s, t) (s', t')"
proof (cases "must_increment (cm_state s)")
  case True
  with assms show ?thesis by (elim start_candidateE) (simp add: vote_final_later)
next
  case False
  with assms show ?thesis by (elim start_candidateE) (simp add: vote_final_same)
qed

interpretation votes: handler_relation vote_final "\<lambda>_. True"
proof unfold_locales
  fix p q r assume "vote_final p q" "vote_final q r"
  then show "vote_final p r" by (rule vote_final_trans)
next
  fix s :: cmodule and t :: tick and f req f'
  assume "rvq_term req \<le> cm_term s" "pre_vote_should_grant req (tk_time t) s"
  then show "vote_final (s, t) (s\<lparr>cm_state := Follower f', cm_meta := (cm_meta s)\<lparr>voted_for := rvq_candidate_id req\<rparr>\<rparr>, write_meta t)"
    using should_grant_vote [of req "tk_time t" s] by (auto simp: vote_final_def)
next
  fix s s' :: cmodule and t t' :: tick and tm
  assume "cm_term s < tm"
    "reset_to_follower (s\<lparr>cm_meta := (cm_meta s)\<lparr>current_term := tm, voted_for := 0\<rparr>\<rparr>) (write_meta t) = Some (s', t')"
  then show "vote_final (s, t) (s', t')" by (elim reset_to_followerE) (simp add: vote_final_later)
next
  fix s s' :: cmodule and t t' :: tick
  assume "start_candidate None s t = Some (s', t')"
  then show "vote_final (s, t) (s', t')" by (rule start_candidate_vote_final)
next
  fix s s' :: cmodule and t t' :: tick and a
  assume "start_candidate a s t = Some (s', t')"
  then show "vote_final (s, t) (s', t')" by (rule start_candidate_vote_final)
qed (auto intro!: vote_final_same elim!: reset_to_followerE main_vote_cases append_proposalE
    leader_commitE leader_roundE scan_entriesE append_newE update_commitedE)

section \<open>Commit index\<close>

definition commit_le :: "cmodule \<times> tick \<Rightarrow> cmodule \<times> tick \<Rightarrow> bool" where
  "commit_le p q \<longleftrightarrow> cm_commit_index (fst p) \<le> cm_commit_index (fst q)"

interpretation commits: handler_relation commit_le "\<lambda>_. True"
  by unfold_locales (auto simp: commit_le_def split: if_splits elim!: step_elims)

section \<open>Announced changes\<close>

definition meta_announced :: "cmodule \<times> tick \<Rightarrow> cmodule \<times> tick \<Rightarrow> bool" where
  "meta_announced p q \<longleftrightarrow> (tk_meta (snd p) \<longrightarrow> tk_meta (snd q))
     \<and> (cm_meta (fst q) \<noteq> cm_meta (fst p) \<longrightarrow> tk_meta (snd q))"

lemma commit_index_changed: "m\<lparr>commit_index := i\<rparr> \<noteq> m \<Longrightarrow> i \<noteq> commit_index m"
  by auto

interpretation announced: handler_relation meta_announced "\<lambda>_. True"
proof unfold_locales
  fix s s' :: cmodule and t t' :: tick and i
  assume "update_commited i s t = Some (s', t')"
  then show "meta_announced (s, t) (s', t')"
    by (rule update_commitedE) (auto simp: meta_announced_def dest: commit_index_changed)
next
  fix s s' :: cmodule and t t' :: tick and l x
  assume "cm_state s = Leader l" "leader_commit l s t = Some (s', t', x)"
  then show "meta_announced (s, t) (s', t')"
    by (elim leader_commitE) (auto simp: meta_announced_def dest: commit_index_changed)
qed (auto simp: meta_announced_def split: if_splits elim!: reset_to_followerE start_candidateE main_vote_cases
    append_proposalE leader_roundE scan_entriesE append_newE)

section \<open>The log\<close>

definition log_announced :: "cmodule \<times> tick \<Rightarrow> cmodule \<times> tick \<Rightarrow> bool" where
  "log_announced p q \<longleftrightarrow> (\<exists>ns. tk_new_entries (snd q) = tk_new_entries (snd p) @ ns
     \<and> run_ops lm_step (cm_log_meta (fst p)) (append_ops ns) = Some (cm_log_meta (fst q)))"

lemma log_announced_refl: "cm_log_meta (fst q) = cm_log_meta (fst p) \<Longrightarrow>
   tk_new_entries (snd q) = tk_new_entries (snd p) \<Longrightarrow> log_announced p q"
  by (auto simp: log_announced_def intro!: exI [of _ "[]"])

lemma log_announced_trans: "log_announced p q \<Longrightarrow> log_announced q r \<Longrightarrow> log_announced p r"
  unfolding log_announced_def by (elim exE conjE) (rule exI, auto simp: run_ops_append)

lemma append_proposal_announced:
  assumes "append_proposal data l s t = Some (s', t', pos)"
  shows "log_announced (s, t) (s', t')"
proof -
  from assms obtain lm fs e q where a:
    "s' = s\<lparr>cm_state := Leader (l\<lparr>ld_followers := fs\<rparr>), cm_config := cs_apply (cm_config s) e (cm_commit_index s), cm_log_meta := lm\<rparr>"
    "t' = t\<lparr>tk_new_entries := tk_new_entries t @ [\<lparr>ne_sequence = q, ne_entry = e\<rparr>]\<rparr>"
    "le_pos e = pos" "lm_append (cm_log_meta s) \<lparr>off_position = pos, off_sequence = q\<rparr> = Some lm"
    by (rule append_proposalE) blast
  then show ?thesis
    by (auto simp: log_announced_def intro!: exI [of _ "[\<lparr>ne_sequence = q, ne_entry = e\<rparr>]"])
qed

lemma append_new_announced: "append_new es b q s t = Some (s', t', q', b') \<Longrightarrow> log_announced (s, t) (s', t')"
  by (erule append_newE) (auto simp: log_announced_def)

interpretation logged: handler_relation log_announced "\<lambda>_. True"
proof unfold_locales
  fix p q r assume "log_announced p q" "log_announced q r"
  then show "log_announced p r" by (rule log_announced_trans)
next
  fix s s' :: cmodule and t t' :: tick and es b q q' b'
  assume "append_new es b q s t = Some (s', t', q', b')"
  then show "log_announced (s, t) (s', t')" by (rule append_new_announced)
next
  fix s s' :: cmodule and t t' :: tick and data l pos
  assume "append_proposal data l s t = Some (s', t', pos)"
  then show "log_announced (s, t) (s', t')" by (rule append_proposal_announced)
next
  fix s s' :: cmodule and t t' :: tick and data l pos
  assume "append_proposal data l s t = Some (s', t', pos)"
  then show "log_announced (s, t) (s', t')" by (rule append_proposal_announced)
qed (auto intro!: log_announced_refl elim!: reset_to_followerE start_candidateE main_vote_cases leader_commitE
      leader_roundE scan_entriesE update_commitedE)

section \<open>Roles\<close>

text \<open>A server that stands for election or leads has voted for itself in its current term.\<close>

definition self_voted :: "cmodule \<Rightarrow> bool" where
  "self_voted s \<longleftrightarrow> (\<not> is_follower (cm_state s) \<longrightarrow> cm_voted_for s = cm_id s \<and> 0 < cm_term s)"

definition keeps_self_voted :: "cmodule \<times> tick \<Rightarrow> cmodule \<times> tick \<Rightarrow> bool" where
  "keeps_self_voted p q \<longleftrightarrow> (self_voted (fst p) \<longrightarrow> self_voted (fst q))"

lemma start_candidate_self_voted:
  assumes "self_voted s" "start_candidate a s t = Some (s', t')"
  shows "self_voted s'"
proof -
  have "cm_voted_for s = cm_id s \<and> 0 < cm_term s" if "\<not> must_increment (cm_state s)"
    using assms(1) that by (cases "cm_state s") (auto simp: self_voted_def must_increment_def)
  with assms(2) show ?thesis
    by (elim start_candidateE) (auto simp: self_voted_def split: if_splits)
qed

interpretation roles: handler_relation keeps_self_voted "\<lambda>_. True"
proof unfold_locales
  fix s s' :: cmodule and t t' :: tick
  assume "start_candidate None s t = Some (s', t')"
  then show "keeps_self_voted (s, t) (s', t')"
    by (simp add: keeps_self_voted_def start_candidate_self_voted)
next
  fix s s' :: cmodule and t t' :: tick and a
  assume "start_candidate a s t = Some (s', t')"
  then show "keeps_self_voted (s, t) (s', t')"
    by (simp add: keeps_self_voted_def start_candidate_self_voted)
qed (auto simp: keeps_self_voted_def self_voted_def elim!: reset_to_followerE main_vote_cases append_proposalE
    leader_commitE leader_roundE scan_entriesE append_newE update_commitedE)

section \<open>The log metadata stays well-formed\<close>

lemma append_ops_wf:
  "lm_wf m \<Longrightarrow> run_ops lm_step m (append_ops ns) = Some m' \<Longrightarrow> lm_wf m'"
proof (induction ns arbitrary: m)
  case (Cons n ns)
  then obtain m1 where "lm_append m \<lparr>off_position = le_pos (ne_entry n), off_sequence = ne_sequence n\<rparr> = Some m1"
    "run_ops lm_step m1 (append_ops ns) = Some m'"
    by (auto simp: bind_eq_Some_conv)
  with Cons lm_append_Some(1) show ?case by blast
qed simp

lemma log_discardedE:
  assumes "log_discarded p s = Some s'"
  obtains m st where "lm_discard (cm_log_meta s) p = Some m" "s' = s\<lparr>cm_log_meta := m, cm_state := st\<rparr>"
    "is_follower st = is_follower (cm_state s)"
proof -
  from assms obtain m where m: "lm_discard (cm_log_meta s) p = Some m"
    by (auto simp: log_discarded_def bind_eq_Some_conv)
  show thesis
  proof (rule that [OF m])
    show "s' = s\<lparr>cm_log_meta := m, cm_state := cm_state s'\<rparr>" "is_follower (cm_state s') = is_follower (cm_state s)"
      using assms m by (cases "cm_state s"; auto simp: log_discarded_def Let_def)+
  qed
qed

section \<open>Reachable states\<close>

text \<open>
  The metadata of a module is built from a log at the start. Afterwards the caller reports
  discards, which it takes from the same log: a discarded position agrees with the entry that
  the metadata knows at its index.
\<close>

definition valid_event :: "event \<Rightarrow> cmodule \<Rightarrow> bool" where
  "valid_event ev s \<longleftrightarrow> (case ev of Ev_log_discarded p \<Rightarrow> valid_discard (lm_positions (cm_log_meta s)) p | _ \<Rightarrow> True)"

inductive reachable :: "cmodule \<Rightarrow> bool" where
  reach_new: "ml_wf log \<Longrightarrow> (pos_index (ml_prev log) = 0 \<longrightarrow> ml_prev log = zero_position) \<Longrightarrow>
    cm_new sid meta snap log now r = Some (s, r') \<Longrightarrow> reachable s"
| reach_step: "reachable s \<Longrightarrow> valid_event ev s \<Longrightarrow> handle ev s t = Some (s', t') \<Longrightarrow> reachable s'"

inductive_cases reachableE: "reachable s"

lemma lm_discard_new:
  assumes "pos_index p = 0 \<longrightarrow> p = zero_position" "lm_discard lm_new p = Some m"
  shows "lm_wf m" "lm_positions m = [p]"
proof -
  have v: "valid_discard (lm_positions lm_new) p"
    using assms(1) by (auto simp: valid_discard_def lm_new_positions)
  note r = lm_discard_positions [OF lm_new_positions(1) assms(2) v]
  show "lm_wf m" by (rule r(1))
  show "lm_positions m = [p]"
    using r(2) assms(1) by (auto simp: lm_new_positions spec_discard_def)
qed

lemma load_log_meta_positions:
  assumes "ml_wf log"
  shows "lm_wf m \<Longrightarrow> lm_positions m = take k (ml_positions log) \<Longrightarrow> 0 < k \<Longrightarrow>
    load_log_meta log [pos_index (ml_prev log) + k..<ml_last_index log + 1] m = Some m' \<Longrightarrow>
    lm_wf m' \<and> lm_positions m' = ml_positions log"
proof (induction "ml_last_index log + 1 - (pos_index (ml_prev log) + k)" arbitrary: m k)
  case 0
  then have "length (ml_log log) < k" "m' = m" by (simp_all add: ml_last_index_def)
  then show ?case using 0 by (simp add: ml_positions_def)
next
  case (Suc n)
  let ?i = "pos_index (ml_prev log) + k"
  have i: "?i < ml_last_index log + 1" using Suc.hyps(2) by linarith
  then have k: "k - 1 < length (ml_log log)" "k < length (ml_positions log)" using Suc.prems(3)
    by (simp_all add: ml_last_index_def ml_positions_def)
  have e: "ml_entry log ?i = Some (ml_log log ! (k - 1))"
    using i k Suc.prems(3) by (simp add: ml_entry_def off_for_eq index_vec_lt)
  obtain en q where eq: "ml_log log ! (k - 1) = (en, q)" by fastforce
  have up: "[?i..<ml_last_index log + 1] = ?i # [pos_index (ml_prev log) + Suc k..<ml_last_index log + 1]"
    using i by (simp add: upt_conv_Cons)
  from Suc.prems(4) [unfolded up load_log_meta.simps e eq] obtain m1 where m1: "lm_append m \<lparr>off_position = le_pos en, off_sequence = q\<rparr> = Some m1"
    "load_log_meta log [pos_index (ml_prev log) + Suc k..<ml_last_index log + 1] m1 = Some m'"
    by (auto simp: bind_eq_Some_conv)
  have nth: "ml_positions log ! k = le_pos en"
    using k Suc.prems(3) eq by (simp add: ml_positions_def nth_Cons')
  have idx: "pos_index (le_pos en) = ?i"
    using ml_wf_index [OF assms k(1)] eq Suc.prems(3) by simp
  have "lm_positions m1 = take (Suc k) (ml_positions log)"
  proof -
    have c: "contiguous (take k (ml_positions log))"
      using contiguous_lm_positions [OF Suc.prems(1)] Suc.prems(2) by simp
    have "hd (take k (ml_positions log)) = ml_prev log" using Suc.prems(3) by (simp add: ml_positions_def hd_take)
    then have "spec_append (take k (ml_positions log)) (le_pos en) = take k (ml_positions log) @ [le_pos en]"
      by (simp add: spec_append_def contiguous_takeWhile [OF c] idx)
    then show ?thesis
      using lm_append_positions [OF Suc.prems(1) m1(1)] Suc.prems(2) k nth by (simp add: take_Suc_conv_app_nth)
  qed
  then show ?case
    using Suc.hyps(1) [of "Suc k" m1] Suc.hyps(2) lm_append_Some(1) [OF Suc.prems(1) m1(1)] m1(2) by simp
qed

lemma cm_new_log:
  assumes "ml_wf log" "pos_index (ml_prev log) = 0 \<longrightarrow> ml_prev log = zero_position"
    and "cm_new sid meta snap log now r = Some (s, r')"
  shows "lm_wf (cm_log_meta s)" "lm_positions (cm_log_meta s) = ml_positions log" "is_follower (cm_state s)"
proof -
  from assms(3) obtain m0 where m0: "lm_discard lm_new (ml_prev log) = Some m0"
    "load_log_meta log [pos_index (ml_prev log) + 1..<ml_last_index log + 1] m0 = Some (cm_log_meta s)"
    and st: "is_follower (cm_state s)"
    by (auto simp: cm_new_def Let_def new_follower_eq split: Option.bind_splits prod.splits)
  note d = lm_discard_new [OF assms(2) m0(1)]
  have "lm_positions m0 = take 1 (ml_positions log)" using d by (simp add: ml_positions_def)
  from load_log_meta_positions [OF assms(1) d(1) this _ m0(2)]
  show "lm_wf (cm_log_meta s)" "lm_positions (cm_log_meta s) = ml_positions log" by simp_all
  show "is_follower (cm_state s)" by (rule st)
qed

lemma handle_wf:
  assumes "lm_wf (cm_log_meta s)" "valid_event ev s" "handle ev s t = Some (s', t')"
  shows "lm_wf (cm_log_meta s')"
proof (cases "\<exists>p. ev = Ev_log_discarded p")
  case True
  then obtain p where p: "ev = Ev_log_discarded p" by blast
  with assms(3) have "log_discarded p s = Some s'" by auto
  then show ?thesis using p assms(1,2) lm_discard_positions(1)
    by (elim log_discardedE) (auto simp: valid_event_def)
next
  case False
  from logged.handle_obeys [OF assms(3) False TrueI] show ?thesis
    using append_ops_wf [OF assms(1)] by (auto simp: log_announced_def)
qed

lemma handle_self_voted:
  assumes "self_voted s" "handle ev s t = Some (s', t')"
  shows "self_voted s'"
proof (cases "\<exists>p. ev = Ev_log_discarded p")
  case True
  with assms show ?thesis by (auto elim!: log_discardedE simp: self_voted_def)
next
  case False
  from roles.handle_obeys [OF assms(2) False TrueI] assms(1) show ?thesis by (simp add: keeps_self_voted_def)
qed

end

