(* ===== verification/Consensus_Properties.thy ===== *)
theory Consensus_Properties
  imports Consensus_Safety
begin

text \<open>
  The theorems on the consensus module that hold for every event, with the module of a small
  cluster on which each of them is applied.
\<close>

section \<open>A small cluster\<close>

definition trio_conf :: configuration where
  "trio_conf = \<lparr>servers = [\<lparr>srv_id = 1, srv_role = MEMBER\<rparr>, \<lparr>srv_id = 2, srv_role = MEMBER\<rparr>, \<lparr>srv_id = 3, srv_role = MEMBER\<rparr>]\<rparr>"

definition trio_meta :: metadata where
  "trio_meta = \<lparr>current_term = 2, voted_for = 0, commit_index = 0\<rparr>"

definition trio_log :: memory_log where
  "trio_log = \<lparr>ml_prev = zero_position, ml_log = [(\<lparr>le_pos = new_position 2 1, le_data = Noop True\<rparr>, 1)]\<rparr>"

definition trio_snapshot :: configuration_snapshot where
  "trio_snapshot = \<lparr>snap_last_applied = 0, snap_data = trio_conf\<rparr>"

definition trio_log_meta :: log_metadata where
  "trio_log_meta = \<lparr>lm_offsets = [zero_offset, \<lparr>off_position = new_position 2 1, off_sequence = 1\<rparr>],
     lm_last_offset = \<lparr>off_position = new_position 2 1, off_sequence = 1\<rparr>\<rparr>"

text \<open>Server 1 of the cluster, freshly started, with one uncommitted entry in its log.\<close>

definition trio_follower :: cmodule where
  "trio_follower = \<lparr>cm_id = 1, cm_meta = trio_meta, cm_persisted_meta = trio_meta, cm_log_meta = trio_log_meta,
     cm_log_last_flushed = 1, cm_config = \<lparr>cs_value = trio_conf, cs_last_applied = 1, cs_pending = None\<rparr>,
     cm_state = Follower \<lparr>fo_election_timeout = from_millis 400, fo_last_leader_id = None, fo_last_heartbeat = 0\<rparr>,
     cm_draining = None, cm_pending_conflict = None, cm_pending_commit_index = None, cm_last_request_id = 0\<rparr>"

definition still_tick :: tick where
  "still_tick = tick_empty 0 (\<lambda>_. 0)"

definition trio_vote_request :: request_vote_request where
  "trio_vote_request = \<lparr>rvq_term = 3, rvq_candidate_id = 2, rvq_last_log_index = 1, rvq_last_log_term = 2, rvq_leader_approval = 0\<rparr>"

lemma cycle_waits:
  assumes "cm_state s = Follower f" "can_be_leader s" "cm_draining s = None" "length (servers (cm_conf s)) \<noteq> 1"
    and "duration_since (tk_time t) (fo_last_heartbeat f) < fo_election_timeout f"
  shows "cycle s t = Some (s, set_next_tick (fo_election_timeout f - duration_since (tk_time t) (fo_last_heartbeat f)) t)"
  using assms by (subst cycle_unfold) (simp add: cycle_body_def cycle_follower_def can_be_leader_def Let_def)

lemma trio_roles [simp]:
  "server_role trio_conf 1 = MEMBER" "server_role trio_conf (Suc 0) = MEMBER"
  "server_role trio_conf 2 = MEMBER" "server_role trio_conf 3 = MEMBER"
  "length (servers trio_conf) = 3"
  by (simp_all add: trio_conf_def server_role_def server_of_def)

lemma trio_can_lead: "can_be_leader trio_follower"
  by (simp add: can_be_leader_def trio_follower_def trio_meta_def)

lemma trio_votes:
  "\<exists>s' t'. handle (Ev_request_vote trio_vote_request) trio_follower still_tick = Some (s', t')
     \<and> cm_term s' = 3 \<and> cm_voted_for s' = 2 \<and> cm_commit_index s' = 0"
proof -
  let ?s0 = "trio_follower\<lparr>cm_meta := trio_meta\<lparr>current_term := 3, voted_for := 0\<rparr>\<rparr>"
  obtain s1 t1 where r: "reset_to_follower ?s0 (write_meta still_tick) = Some (s1, t1)"
    by (simp add: reset_to_follower_def new_follower_eq)
  then obtain f where s1: "s1 = ?s0\<lparr>cm_state := Follower f\<rparr>" "fo_last_leader_id f = None"
    "fo_last_heartbeat f = 0" "0 < fo_election_timeout f" "tk_time t1 = 0"
    by (auto simp: reset_to_follower_def new_follower_eq still_tick_def tick_empty_def from_millis_def)
  have c: "cycle s1 t1 = Some (s1, set_next_tick (fo_election_timeout f) t1)"
    by (subst cycle_waits [of s1 f])
      (simp_all add: s1 trio_follower_def can_be_leader_def trio_meta_def)
  then show ?thesis
    using r s1(2-5)
    by (auto simp: drop_result_def request_vote_def observe_term_def become_follower_def trio_vote_request_def s1(1)
        pre_vote_def Let_def config_snapshot_def cs_snapshot_def pre_vote_should_grant_def log_up_to_date_def
        last_leader_seen_def trio_follower_def trio_meta_def trio_log_meta_def lm_last_def)
qed

section \<open>Every event\<close>

text \<open>
  C2: No event makes a server vote twice in a term. Over every operation of the module the
  term never falls, and as long as the term is the same, a vote that was cast is kept.
\<close>

theorem vote_is_final:
  assumes "handle ev s t = Some (s', t')"
  shows "cm_term s \<le> cm_term s' \<and> (cm_term s' = cm_term s \<and> cm_voted_for s \<noteq> 0 \<longrightarrow> cm_voted_for s' = cm_voted_for s)"
proof (cases "\<exists>p. ev = Ev_log_discarded p")
  case True
  with assms show ?thesis by (auto elim!: log_discardedE)
next
  case False
  from votes.handle_obeys [OF assms False TrueI] show ?thesis by (auto simp: vote_final_def)
qed

theorem vote_is_final_witness:
  "\<exists>s' t'. handle (Ev_request_vote trio_vote_request) trio_follower still_tick = Some (s', t')
     \<and> cm_term trio_follower \<le> cm_term s' \<and> cm_voted_for s' = 2"
proof -
  from trio_votes obtain s' t' where
    h: "handle (Ev_request_vote trio_vote_request) trio_follower still_tick = Some (s', t')" "cm_voted_for s' = 2"
    by blast
  with vote_is_final [OF h(1)] show ?thesis by blast
qed

text \<open>
  C3: The commit index of a server never decreases, whatever the event.
\<close>

theorem commit_index_monotone:
  assumes "handle ev s t = Some (s', t')"
  shows "cm_commit_index s \<le> cm_commit_index s'"
proof (cases "\<exists>p. ev = Ev_log_discarded p")
  case True
  with assms show ?thesis by (auto elim!: log_discardedE)
next
  case False
  from commits.handle_obeys [OF assms False TrueI] show ?thesis by (simp add: commit_le_def)
qed

theorem commit_index_monotone_witness:
  "\<exists>s' t'. handle (Ev_request_vote trio_vote_request) trio_follower still_tick = Some (s', t')
     \<and> cm_commit_index trio_follower \<le> cm_commit_index s'"
proof -
  from trio_votes obtain s' t' where
    h: "handle (Ev_request_vote trio_vote_request) trio_follower still_tick = Some (s', t')" by blast
  with commit_index_monotone [OF h] show ?thesis by blast
qed

text \<open>
  C11: No change of the persistent metadata goes unnoticed: when an event changes the term, the
  vote or the commit index, the tick it returns asks the caller to persist the metadata.
\<close>

theorem metadata_change_announced:
  assumes "handle ev s t = Some (s', t')" "cm_meta s' \<noteq> cm_meta s"
  shows "tk_meta t'"
proof (cases "\<exists>p. ev = Ev_log_discarded p")
  case True
  with assms show ?thesis by (auto elim!: log_discardedE)
next
  case False
  from announced.handle_obeys [OF assms(1) False TrueI] assms(2) show ?thesis by (simp add: meta_announced_def)
qed

theorem metadata_change_announced_witness:
  "\<exists>s' t'. handle (Ev_request_vote trio_vote_request) trio_follower still_tick = Some (s', t')
     \<and> cm_meta s' \<noteq> cm_meta trio_follower \<and> tk_meta t'"
proof -
  from trio_votes obtain s' t' where
    h: "handle (Ev_request_vote trio_vote_request) trio_follower still_tick = Some (s', t')" "cm_term s' = 3" by blast
  then have "cm_meta s' \<noteq> cm_meta trio_follower" by (auto simp: trio_follower_def trio_meta_def)
  with metadata_change_announced [OF h(1)] h(1) show ?thesis by blast
qed

text \<open>
  C12: The log metadata of the module is what the announced entries make of it. Except for a
  discard, every event changes the metadata exactly by appending, in order, the new entries
  that it adds to the tick; a caller who appends them to its log keeps the two the same.
\<close>

theorem log_change_announced:
  assumes "handle ev s t = Some (s', t')" "\<forall>p. ev \<noteq> Ev_log_discarded p"
  shows "\<exists>ns. tk_new_entries t' = tk_new_entries t @ ns
    \<and> run_ops lm_step (cm_log_meta s) (map (\<lambda>n. Append_op (ne_entry n) (ne_sequence n)) ns) = Some (cm_log_meta s')"
  using logged.handle_obeys [OF assms(1) _ TrueI] assms(2) by (simp add: log_announced_def append_ops_def)

theorem log_change_announced_witness:
  "\<exists>s' t' (ns :: new_log_entry list). handle (Ev_request_vote trio_vote_request) trio_follower still_tick = Some (s', t')
     \<and> run_ops lm_step (cm_log_meta trio_follower) (map (\<lambda>n. Append_op (ne_entry n) (ne_sequence n)) ns)
        = Some (cm_log_meta s')"
proof -
  from trio_votes obtain s' t' where
    h: "handle (Ev_request_vote trio_vote_request) trio_follower still_tick = Some (s', t')" by blast
  from log_change_announced [OF this] obtain ns :: "new_log_entry list" where
    "run_ops lm_step (cm_log_meta trio_follower) (map (\<lambda>n. Append_op (ne_entry n) (ne_sequence n)) ns) = Some (cm_log_meta s')"
    by auto
  with h show ?thesis by (intro exI conjI)
qed

section \<open>Reachable states\<close>

lemma trio_log_wf: "ml_wf trio_log"
  by (simp add: ml_wf_def ml_positions_def trio_log_def contiguous_Cons)

lemma trio_new: "\<exists>s r. cm_new 1 trio_meta trio_snapshot trio_log 0 (\<lambda>_. 0) = Some (s, r) \<and> cm_id s = 1"
proof -
  have d: "lm_discard lm_new (ml_prev trio_log) = Some lm_new"
    by (simp add: trio_log_def lm_discard_def lm_new_def zero_offset_def lm_prev_def index_vec_def)
  have i: "[pos_index (ml_prev trio_log) + 1..<ml_last_index trio_log + 1] = [1]"
    by (simp add: trio_log_def ml_last_index_def)
  have e: "ml_entry trio_log 1 = Some (\<lparr>le_pos = new_position 2 1, le_data = Noop True\<rparr>, 1)"
    by (simp add: ml_entry_def off_for_def trio_log_def index_vec_def)
  have a: "lm_append lm_new \<lparr>off_position = new_position 2 1, off_sequence = 1\<rparr> = Some trio_log_meta"
    by (simp add: lm_append_def lm_last_def lm_new_def zero_offset_def zero_sequence_def trio_log_meta_def)
  have t: "ml_term trio_log (ml_last_index trio_log) = Some (Some 2)"
    by (simp add: ml_term_def off_for_def trio_log_def ml_last_index_def index_vec_def)
  have c: "[cs_last_applied (cs_from trio_snapshot) + 1..<ml_last_index trio_log + 1] = [1]"
    by (simp add: trio_log_def ml_last_index_def cs_from_def trio_snapshot_def)
  have p: "pos_index (ml_prev trio_log) = 0" by (simp add: trio_log_def)
  show ?thesis
    unfolding cm_new_def d i c t Let_def
    by (simp add: e [simplified] a [simplified] p new_follower_eq trio_meta_def trio_snapshot_def split: prod.splits)
qed

text \<open>
  C13: In every state that a module can reach from its construction, a candidate or a leader
  has voted for itself in its current term, which is positive, and the log metadata is
  well-formed.
\<close>

theorem reachable_invariant:
  assumes "reachable s"
  shows "(is_follower (cm_state s) \<or> (cm_voted_for s = cm_id s \<and> 0 < cm_term s)) \<and> lm_wf (cm_log_meta s)"
proof -
  from assms have "self_voted s \<and> lm_wf (cm_log_meta s)"
  proof (induction rule: reachable.induct)
    case (reach_new log sid meta snap now r s r')
    from cm_new_log [OF this] show ?case by (simp add: self_voted_def)
  next
    case (reach_step s ev t s' t')
    then show ?case using handle_self_voted handle_wf by blast
  qed
  then show ?thesis by (auto simp: self_voted_def)
qed

theorem reachable_invariant_witness:
  "\<exists>s. reachable s \<and> cm_id s = 1 \<and> lm_wf (cm_log_meta s)"
proof -
  from trio_new obtain s r where s: "cm_new 1 trio_meta trio_snapshot trio_log 0 (\<lambda>_. 0) = Some (s, r)" "cm_id s = 1"
    by blast
  have "reachable s" by (rule reach_new [OF trio_log_wf _ s(1)]) (simp add: trio_log_def)
  with reachable_invariant [OF this] s(2) show ?thesis by blast
qed

text \<open>
  C20: A restarted module knows its log: the metadata that \<open>ConsensusModule::new\<close> builds holds
  exactly the positions of the log it was given, and the module starts as a follower.
\<close>

theorem new_module_knows_log:
  assumes "ml_wf log" "pos_index (ml_prev log) = 0 \<longrightarrow> ml_prev log = zero_position"
    and "cm_new sid meta snap log now r = Some (s, r')"
  shows "lm_positions (cm_log_meta s) = ml_positions log \<and> is_follower (cm_state s)"
  using cm_new_log [OF assms] by simp

theorem new_module_knows_log_witness:
  "\<exists>s r. cm_new 1 trio_meta trio_snapshot trio_log 0 (\<lambda>_. 0) = Some (s, r)
     \<and> lm_positions (cm_log_meta s) = [zero_position, new_position 2 1]"
proof -
  from trio_new obtain s r where s: "cm_new 1 trio_meta trio_snapshot trio_log 0 (\<lambda>_. 0) = Some (s, r)" by blast
  with new_module_knows_log [OF trio_log_wf _ s] show ?thesis
    by (auto simp: trio_log_def ml_positions_def)
qed

text \<open>
  C17: The recursion of \<open>cycle\<close> ends. The call satisfies the recursive equation of the code, and
  unfolding that equation five times more than there are promotions left to make
  already determines the result: what a deeper call would do has no influence.
\<close>

theorem cycle_recursion_ends:
  "cycle s t = cycle_body cycle s t \<and> (\<forall>n deeper. cycle s t = (cycle_body ^^ (cycle_depth s + n)) deeper s t)"
  using cycle_unfold cycle_eq_iterate [of s t] cycle_rank_le_depth [of s t] by (simp add: le_add1 order.trans)

end
