(* ===== verification/Consensus_Election.thy ===== *)
theory Consensus_Election
  imports Consensus_Safety Quorum
begin

text \<open>
  What a server's role says about the votes of the others, while the membership is fixed: a
  candidate counts only votes that were cast for it in its term, and a leader has the votes of
  a majority. \<open>backed t v\<close> is any predicate that holds of the votes that the server's
  environment reports; the invariant is kept by every event whose reports satisfy it.
\<close>

section \<open>The order of votes\<close>

definition vote_le :: "metadata \<Rightarrow> metadata \<Rightarrow> bool" where
  "vote_le m m' \<longleftrightarrow> current_term m \<le> current_term m'
     \<and> (current_term m = current_term m' \<longrightarrow> voted_for m = 0 \<or> voted_for m' = voted_for m)"

lemma vote_le_refl [simp]: "vote_le m m"
  by (simp add: vote_le_def)

lemma vote_le_trans: "vote_le a b \<Longrightarrow> vote_le b c \<Longrightarrow> vote_le a c"
  by (auto simp: vote_le_def)

lemma vote_le_commit [simp]: "vote_le m (m'\<lparr>commit_index := i\<rparr>) = vote_le m m'"
  by (simp add: vote_le_def)

lemma vote_le_new_term: "current_term m < tm \<Longrightarrow> vote_le m (m\<lparr>current_term := tm, voted_for := v\<rparr>)"
  by (simp add: vote_le_def)

lemma vote_final_iff: "vote_final (s, t) (s', t') \<longleftrightarrow> cm_id s' = cm_id s \<and> vote_le (cm_meta s) (cm_meta s')"
  by (auto simp: vote_final_def vote_le_def)

section \<open>Fixed membership\<close>

definition not_config :: "log_entry_data \<Rightarrow> bool" where
  "not_config d \<longleftrightarrow> (case d of Config _ \<Rightarrow> False | _ \<Rightarrow> True)"

definition config_is :: "configuration \<Rightarrow> config_state \<Rightarrow> bool" where
  "config_is cfg c \<longleftrightarrow> cs_value c = cfg \<and> cs_pending c = None"

lemma config_is_apply: "config_is cfg c \<Longrightarrow> not_config (le_data e) \<Longrightarrow> config_is cfg (cs_apply c e n)"
  by (auto simp: config_is_def cs_apply_def not_config_def split: log_entry_data.splits)

lemma config_is_commit [simp]: "config_is cfg c \<Longrightarrow> config_is cfg (fst (cs_commit c n))"
  by (simp add: config_is_def cs_commit_def)

lemma config_is_revert: "config_is cfg c \<Longrightarrow> cs_revert c n = Some c' \<Longrightarrow> config_is cfg c'"
  by (auto simp: config_is_def cs_revert_def split: if_splits)

lemma config_is_scan:
  "scan_entries es n s = Some (Inr (s', k, b)) \<Longrightarrow> config_is cfg (cm_config s) \<Longrightarrow> config_is cfg (cm_config s')"
  by (induction es arbitrary: n)
    (auto split: Option.bind_splits option.splits if_splits intro: config_is_revert)

lemma config_is_append:
  "append_new es b q s t = Some (s', t', q', b') \<Longrightarrow> config_is cfg (cm_config s) \<Longrightarrow>
   \<forall>e \<in> set es. not_config (le_data e) \<Longrightarrow> config_is cfg (cm_config s')"
proof (induction es b q s t rule: append_new.induct)
  case (2 e es b q s t)
  let ?seq = "next_sequence (off_sequence (lm_last (cm_log_meta s)))"
  from "2.prems"(1) obtain lm where lm: "lm_append (cm_log_meta s) \<lparr>off_position = le_pos e, off_sequence = ?seq\<rparr> = Some lm"
    by (auto simp: Let_def bind_eq_Some_conv)
  show ?case
    using "2.prems" lm
    by (intro "2.IH" [OF refl lm refl refl refl]) (simp_all add: Let_def config_is_apply)
qed simp

lemma config_is_snapshot: "config_is cfg c \<Longrightarrow> cs_snapshot c = Some \<lparr>snap_last_applied = cs_last_applied c, snap_data = cfg\<rparr>"
  by (simp add: config_is_def cs_snapshot_def)

section \<open>Votes behind a role\<close>

type_synonym backing = "raft_term \<Rightarrow> server_id \<Rightarrow> bool"

definition quorum_backed :: "configuration \<Rightarrow> backing \<Rightarrow> raft_term \<Rightarrow> bool" where
  "quorum_backed cfg backed tm \<longleftrightarrow> (\<exists>Q. is_quorum cfg Q \<and> (\<forall>v \<in> Q. backed tm v))"

definition role_backed :: "configuration \<Rightarrow> server_id \<Rightarrow> backing \<Rightarrow> raft_term \<Rightarrow> consensus_state \<Rightarrow> bool" where
  "role_backed cfg me backed tm st = (case st of
      Follower _ \<Rightarrow> True
    | Candidate c \<Rightarrow> distinct (ca_votes_received c) \<and> me \<notin> set (ca_votes_received c)
        \<and> (\<forall>v \<in> set (ca_votes_received c). v \<in> voters cfg \<and> backed tm v)
    | Leader _ \<Rightarrow> quorum_backed cfg backed tm)"

lemma role_backed_simps [simp]:
  "role_backed cfg me backed tm (Follower f)"
  "role_backed cfg me backed tm (Candidate c) \<longleftrightarrow> distinct (ca_votes_received c) \<and> me \<notin> set (ca_votes_received c)
        \<and> (\<forall>v \<in> set (ca_votes_received c). v \<in> voters cfg \<and> backed tm v)"
  "role_backed cfg me backed tm (Leader l) \<longleftrightarrow> quorum_backed cfg backed tm"
  by (simp_all add: role_backed_def)

definition server_fair :: "configuration \<Rightarrow> server_id \<Rightarrow> backing \<Rightarrow> cmodule \<Rightarrow> bool" where
  "server_fair cfg me backed s \<longleftrightarrow> cm_id s = me \<and> config_is cfg (cm_config s) \<and> self_voted s
     \<and> vote_le (cm_persisted_meta s) (cm_meta s)
     \<and> (voted_for (cm_persisted_meta s) = me \<longrightarrow> backed (current_term (cm_persisted_meta s)) me)
     \<and> role_backed cfg me backed (cm_term s) (cm_state s)"

text \<open>A request for votes names its sender as the candidate and goes to voters only.\<close>

definition vote_request_sound :: "configuration \<Rightarrow> server_id \<Rightarrow> consensus_message \<Rightarrow> bool" where
  "vote_request_sound cfg me m \<longleftrightarrow> (\<forall>req. msg_body m = RequestVote req \<longrightarrow>
     rvq_candidate_id req = me \<and> set (msg_to m) \<subseteq> voters cfg)"

definition fair_run :: "configuration \<Rightarrow> server_id \<Rightarrow> backing \<Rightarrow> metadata \<Rightarrow> cmodule \<times> tick \<Rightarrow> bool" where
  "fair_run cfg me backed m0 p \<longleftrightarrow> server_fair cfg me backed (fst p) \<and> vote_le m0 (cm_meta (fst p))
     \<and> (\<forall>m \<in> set (tk_messages (snd p)). vote_request_sound cfg me m)"

definition keeps_fair :: "configuration \<Rightarrow> server_id \<Rightarrow> backing \<Rightarrow> metadata \<Rightarrow> cmodule \<times> tick \<Rightarrow> cmodule \<times> tick \<Rightarrow> bool" where
  "keeps_fair cfg me backed m0 p q \<longleftrightarrow>
     (conf_wf cfg \<and> num_aspiring cfg = 0 \<and> fair_run cfg me backed m0 p \<longrightarrow> fair_run cfg me backed m0 q)"

definition fair_event :: "configuration \<Rightarrow> server_id \<Rightarrow> backing \<Rightarrow> metadata \<Rightarrow> event \<Rightarrow> bool" where
  "fair_event cfg me backed m0 ev \<longleftrightarrow> (case ev of
      Ev_propose data _ \<Rightarrow> not_config data
    | Ev_append_entries req \<Rightarrow> \<forall>e \<in> set (aeq_entries req). not_config (le_data e)
    | Ev_install_snapshot req \<Rightarrow> snap_data (isq_last_config req) = cfg
    | Ev_request_vote_callback v _ pre resp \<Rightarrow>
        (\<forall>hint. rvr_last_config_hint resp = Some hint \<longrightarrow> snap_data hint = cfg)
        \<and> (\<not> pre \<and> rvr_vote_granted resp \<longrightarrow> v \<in> voters cfg \<and> backed (rvr_term resp) v)
    | Ev_persisted_metadata m \<Rightarrow> vote_le m m0 \<and> (voted_for m = me \<longrightarrow> backed (current_term m) me)
    | _ \<Rightarrow> True)"

lemma not_aspiring: "num_aspiring cfg = 0 \<Longrightarrow> server_role cfg i \<noteq> ASPIRING"
proof
  assume n: "num_aspiring cfg = 0" and r: "server_role cfg i = ASPIRING"
  from r obtain v where "server_in (servers cfg) i = Some v" "srv_role v = ASPIRING"
    by (auto simp: server_role_def server_of_def split: option.splits)
  then show False using n server_in_Some [of "servers cfg" i v] by (auto simp: num_aspiring_def filter_empty_conv)
qed

text \<open>Steps that keep the metadata, the configuration and the role's votes.\<close>

lemma fair_same:
  assumes "cm_id s' = cm_id s" "vote_le (cm_meta s) (cm_meta s')" "cm_persisted_meta s' = cm_persisted_meta s"
    and "config_is cfg (cm_config s) \<Longrightarrow> config_is cfg (cm_config s')"
    and "self_voted s \<Longrightarrow> self_voted s'"
    and "role_backed cfg me backed (cm_term s) (cm_state s) \<Longrightarrow> role_backed cfg me backed (cm_term s') (cm_state s')"
    and "\<And>m. cm_id s = me \<Longrightarrow> cm_conf s = cfg \<Longrightarrow> m \<in> set (tk_messages t') \<Longrightarrow>
      m \<in> set (tk_messages t) \<or> vote_request_sound cfg me m"
  shows "keeps_fair cfg me backed m0 (s, t) (s', t')"
proof -
  have "fair_run cfg me backed m0 (s', t')" if f: "fair_run cfg me backed m0 (s, t)"
  proof -
    from f have s: "cm_id s = me" "config_is cfg (cm_config s)" "self_voted s" "vote_le (cm_persisted_meta s) (cm_meta s)"
      "voted_for (cm_persisted_meta s) = me \<longrightarrow> backed (current_term (cm_persisted_meta s)) me"
      "role_backed cfg me backed (cm_term s) (cm_state s)" "vote_le m0 (cm_meta s)"
      "\<forall>m \<in> set (tk_messages t). vote_request_sound cfg me m"
      by (auto simp: fair_run_def server_fair_def)
    have "cm_conf s = cfg" using s(2) by (simp add: config_is_def)
    with s assms show ?thesis
      by (auto simp: fair_run_def server_fair_def intro: vote_le_trans)
  qed
  then show ?thesis by (simp add: keeps_fair_def)
qed

lemma start_candidate_fair:
  assumes "start_candidate a s t = Some (s', t')"
  shows "keeps_fair cfg me backed m0 (s, t) (s', t')"
proof (rule fair_same)
  show "vote_le (cm_meta s) (cm_meta s')" "cm_id s' = cm_id s"
    using start_candidate_vote_final [OF assms] by (simp_all add: vote_final_iff)
  show "self_voted s'" if "self_voted s" by (rule start_candidate_self_voted [OF that assms])
qed (use assms in \<open>auto elim!: start_candidateE simp: vote_message_def vote_request_sound_def\<close>)

lemma reset_fair: "reset_to_follower s t = Some (s', t') \<Longrightarrow> keeps_fair cfg me backed m0 (s, t) (s', t')"
  by (rule fair_same) (auto elim!: reset_to_followerE simp: self_voted_def is_follower_def)

lemma new_term_fair:
  assumes "cm_term s < tm"
    "reset_to_follower (s\<lparr>cm_meta := (cm_meta s)\<lparr>current_term := tm, voted_for := 0\<rparr>\<rparr>) (write_meta t) = Some (s', t')"
  shows "keeps_fair cfg me backed m0 (s, t) (s', t')"
  using assms by (intro fair_same) (auto elim!: reset_to_followerE simp: self_voted_def is_follower_def vote_le_new_term)

lemma main_vote_fair:
  assumes "cm_state s = Candidate c" "main_vote c s t = Some (s', t', st)"
  shows "keeps_fair cfg me backed m0 (s, t) (s', t')"
  using assms(2)
proof (cases rule: main_vote_cases)
  case (begun ms)
  have "vote_request_sound cfg me m" if "m \<in> set ms" "cm_id s = me" "cm_conf s = cfg" for m
    using begun(5) [OF that(1)] that(2,3) begun(3) by (auto simp: vote_message_def vote_request_sound_def)
  with begun assms(1) show ?thesis
    by (intro fair_same) (auto simp: self_voted_def is_follower_def)
qed (simp_all add: keeps_fair_def)

text \<open>A candidate that counts a majority of votes has a quorum of servers behind it.\<close>

lemma become_leader_fair:
  assumes c: "cm_state s = Candidate c" and maj: "cm_majority s \<le> vote_count s c"
  shows "keeps_fair cfg me backed m0 (s, t) (become_leader m s, t)"
proof -
  have "fair_run cfg me backed m0 (become_leader m s, t)" if wf: "conf_wf cfg" and f: "fair_run cfg me backed m0 (s, t)"
  proof -
    from f c have s: "cm_id s = me" "cm_conf s = cfg" "cm_voted_for s = me" "vote_le (cm_persisted_meta s) (cm_meta s)"
      "voted_for (cm_persisted_meta s) = me \<longrightarrow> backed (current_term (cm_persisted_meta s)) me"
      and v: "distinct (ca_votes_received c)" "me \<notin> set (ca_votes_received c)"
      "\<forall>v \<in> set (ca_votes_received c). v \<in> voters cfg \<and> backed (cm_term s) v"
      by (auto simp: fair_run_def server_fair_def config_is_def self_voted_def is_follower_def)
    let ?Q = "set (ca_votes_received c) \<union> (if have_self_voted s then {me} else {})"
    have "card ?Q = vote_count s c"
      using v distinct_card [OF v(1)] by (auto simp: vote_count_def)
    moreover have self: "me \<in> voters cfg \<and> backed (cm_term s) me" if "have_self_voted s"
    proof -
      from that have "voted_for (cm_persisted_meta s) = me"
        using s(3,4) by (auto simp: have_self_voted_def vote_le_def)
      then show ?thesis using that s voters_role [OF wf] by (auto simp: have_self_voted_def)
    qed
    ultimately have "is_quorum cfg ?Q" "\<forall>v \<in> ?Q. backed (cm_term s) v"
      using maj v(3) wf s(2) by (auto simp: is_quorum_def cm_majority_def)
    then have "quorum_backed cfg backed (cm_term s)" unfolding quorum_backed_def by blast
    then show ?thesis
      using f c by (auto simp: fair_run_def server_fair_def self_voted_def is_follower_def become_leader_def)
  qed
  then show ?thesis by (simp add: keeps_fair_def)
qed

lemma append_proposal_fair:
  assumes "append_proposal data l s t = Some (s', t', pos)" "cm_state s = Leader l"
    and "cm_conf s = cfg \<Longrightarrow> num_aspiring cfg = 0 \<Longrightarrow> not_config data"
  shows "keeps_fair cfg me backed m0 (s, t) (s', t')"
proof (cases "cm_conf s = cfg \<and> num_aspiring cfg = 0")
  case True
  with assms show ?thesis
    by (intro fair_same) (auto elim!: append_proposalE simp: self_voted_def is_follower_def config_is_apply)
next
  case False
  then show ?thesis by (auto simp: keeps_fair_def fair_run_def server_fair_def config_is_def)
qed

lemma append_new_fair:
  assumes "\<forall>e \<in> set es. not_config (le_data e)" "append_new es b q s t = Some (s', t', q', b')"
  shows "keeps_fair cfg me backed m0 (s, t) (s', t')"
proof (rule fair_same)
  show "config_is cfg (cm_config s')" if "config_is cfg (cm_config s)"
    by (rule config_is_append [OF assms(2) that assms(1)])
qed (use assms(2) in \<open>auto elim!: append_newE simp: self_voted_def\<close>)

lemma scan_entries_fair:
  assumes "scan_entries es n s = Some (Inr (s', k, b))"
  shows "keeps_fair cfg me backed m0 (s, t) (s', t)"
proof (rule fair_same)
  show "config_is cfg (cm_config s')" if "config_is cfg (cm_config s)"
    by (rule config_is_scan [OF assms that])
qed (use assms in \<open>auto elim!: scan_entriesE simp: self_voted_def\<close>)

lemma count_fair:
  assumes "fair_event cfg me backed m0 (Ev_request_vote_callback i rid pre resp)" "cm_state s = Candidate c"
    "cm_term s = rvr_term resp" "i \<noteq> cm_id s"
  shows "keeps_fair cfg me backed m0 (s, t) (s\<lparr>cm_state := Candidate (count_vote i pre (rvr_vote_granted resp) c)\<rparr>, t)"
  using assms
  by (auto simp: keeps_fair_def fair_run_def server_fair_def fair_event_def self_voted_def is_follower_def count_vote_def)

lemma set_persisted_fair:
  assumes "fair_event cfg me backed m0 (Ev_persisted_metadata m)"
  shows "keeps_fair cfg me backed m0 (s, t) (s\<lparr>cm_persisted_meta := m\<rparr>, t)"
  using assms vote_le_trans [of m m0 "cm_meta s"]
  by (auto simp: keeps_fair_def fair_run_def server_fair_def fair_event_def self_voted_def)

lemma grant_fair:
  assumes "cm_state s = Follower f" "rvq_term req \<le> cm_term s" "pre_vote_should_grant req now s"
  shows "keeps_fair cfg me backed m0 (s, t)
    (s\<lparr>cm_state := Follower f', cm_meta := (cm_meta s)\<lparr>voted_for := rvq_candidate_id req\<rparr>\<rparr>, write_meta t)"
  using should_grant_vote [OF assms(3,2)]
  by (intro fair_same) (auto simp: vote_le_def self_voted_def is_follower_def)

lemma new_config_fair:
  assumes "snap_data snap = cfg"
  shows "keeps_fair cfg me backed m0 (s, t) (s\<lparr>cm_config := cs_from snap\<rparr>, write_config t)"
  using assms by (intro fair_same) (auto simp: config_is_def cs_from_def self_voted_def)

lemma commit_fair:
  assumes "cm_state s = Leader l" "leader_commit l s t = Some (s', t', x)"
  shows "keeps_fair cfg me backed m0 (s, t) (s', t')"
  using assms by (intro fair_same) (auto elim!: leader_commitE simp: self_voted_def is_follower_def)

lemma update_commited_fair:
  assumes "update_commited i s t = Some (s', t')"
  shows "keeps_fair cfg me backed m0 (s, t) (s', t')"
  using assms by (intro fair_same) (auto elim!: update_commitedE simp: self_voted_def)

lemma round_fair:
  assumes "cm_state s = Leader l" "leader_round s t = Some (s', t', d)"
  shows "keeps_fair cfg me backed m0 (s, t) (s', t')"
proof -
  from assms(2) obtain l' d' n ms rg where r: "s' = s\<lparr>cm_state := Leader l', cm_draining := d', cm_last_request_id := n\<rparr>"
    "t' = t\<lparr>tk_messages := tk_messages t @ ms, tk_rng := rg\<rparr>" "\<forall>m \<in> set ms. leader_message s m"
    by (rule leader_roundE) blast
  then have "vote_request_sound cfg me m" if "m \<in> set ms" for m
    using that by (auto simp: leader_message_def vote_request_sound_def)
  with r assms(1) show ?thesis by (intro fair_same) (auto simp: self_voted_def is_follower_def)
qed

lemma internal_not_config:
  "internal_proposal s data \<Longrightarrow> cm_conf s = cfg \<Longrightarrow> num_aspiring cfg = 0 \<Longrightarrow> not_config data"
  using not_aspiring by (auto simp: internal_proposal_def not_config_def)

lemma frame_fair:
  assumes "cm_id s' = cm_id s" "cm_meta s' = cm_meta s" "cm_persisted_meta s' = cm_persisted_meta s" "cm_config s' = cm_config s"
    "is_follower (cm_state s') = is_follower (cm_state s)" "tk_messages t' = tk_messages t"
    "role_backed cfg me backed (cm_term s) (cm_state s) = role_backed cfg me backed (cm_term s) (cm_state s')"
  shows "keeps_fair cfg me backed m0 (s, t) (s', t')"
  using assms by (intro fair_same) (auto simp: self_voted_def)

interpretation elections: handler_relation "keeps_fair cfg me backed m0" "fair_event cfg me backed m0" for cfg me backed m0
proof unfold_locales
  show "keeps_fair cfg me backed m0 p p" for p by (simp add: keeps_fair_def)
next
  fix p q r
  assume "keeps_fair cfg me backed m0 p q" "keeps_fair cfg me backed m0 q r"
  then show "keeps_fair cfg me backed m0 p r" by (simp add: keeps_fair_def)
next
  fix i rid pre resp snap and s :: cmodule and t :: tick
  assume "fair_event cfg me backed m0 (Ev_request_vote_callback i rid pre resp)" "rvr_last_config_hint resp = Some snap"
  then show "keeps_fair cfg me backed m0 (s, t) (s\<lparr>cm_config := cs_from snap\<rparr>, write_config t)"
    by (intro new_config_fair) (simp add: fair_event_def)
next
  fix isq and s :: cmodule and t :: tick
  assume "fair_event cfg me backed m0 (Ev_install_snapshot isq)"
  then show "keeps_fair cfg me backed m0 (s, t) (s\<lparr>cm_config := cs_from (isq_last_config isq)\<rparr>, write_config t)"
    by (intro new_config_fair) (simp add: fair_event_def)
next
  fix aeq k b q q' b' and s s' :: cmodule and t t' :: tick
  assume ev: "fair_event cfg me backed m0 (Ev_append_entries aeq)"
    and a: "append_new (drop k (aeq_entries aeq)) b q s t = Some (s', t', q', b')"
  show "keeps_fair cfg me backed m0 (s, t) (s', t')"
    by (rule append_new_fair [OF _ a]) (use ev in \<open>auto simp: fair_event_def dest: in_set_dropD\<close>)
next
  fix data rd l pos and s s' :: cmodule and t t' :: tick
  assume ev: "fair_event cfg me backed m0 (Ev_propose data rd)" and l: "cm_state s = Leader l"
    and a: "append_proposal data l s t = Some (s', t', pos)"
  show "keeps_fair cfg me backed m0 (s, t) (s', t')"
    by (rule append_proposal_fair [OF a l]) (use ev in \<open>simp add: fair_event_def\<close>)
next
  fix data l pos and s s' :: cmodule and t t' :: tick
  assume i: "internal_proposal s data" and l: "cm_state s = Leader l" and a: "append_proposal data l s t = Some (s', t', pos)"
  show "keeps_fair cfg me backed m0 (s, t) (s', t')"
    by (rule append_proposal_fair [OF a l internal_not_config [OF i]])
qed (erule start_candidate_fair reset_fair scan_entries_fair update_commited_fair set_persisted_fair
    | erule (1) main_vote_fair become_leader_fair commit_fair round_fair new_term_fair
    | erule (2) grant_fair | erule (3) count_fair
    | rule frame_fair; simp add: is_follower_def)+

lemma fair_handle:
  assumes "conf_wf cfg" "num_aspiring cfg = 0" "server_fair cfg me backed s" "tk_messages t = []"
    and "handle ev s t = Some (s', t')" "\<nexists>p. ev = Ev_log_discarded p" "fair_event cfg me backed (cm_meta s) ev"
  shows "server_fair cfg me backed s'" "vote_le (cm_meta s) (cm_meta s')"
    "\<forall>m \<in> set (tk_messages t'). vote_request_sound cfg me m"
  using elections.handle_obeys [OF assms(5-7)] assms(1-4) by (auto simp: keeps_fair_def fair_run_def)

lemma fair_discard:
  assumes "log_discarded p s = Some s'" "server_fair cfg me backed s"
  shows "server_fair cfg me backed s' \<and> cm_meta s' = cm_meta s"
  using assms
  by (auto simp: log_discarded_def Let_def server_fair_def self_voted_def is_follower_def bind_eq_Some_conv
      split: consensus_state.splits)

lemma server_fair_mono:
  assumes "server_fair cfg me backed s" "\<And>tm v. backed tm v \<Longrightarrow> backed' tm v"
  shows "server_fair cfg me backed' s"
  using assms by (auto simp: server_fair_def role_backed_def quorum_backed_def split: consensus_state.splits)

section \<open>A granted vote\<close>

lemma pre_vote_hint:
  "pre_vote req now s = Some resp \<Longrightarrow> config_is cfg (cm_config s) \<Longrightarrow> rvr_last_config_hint resp = Some hint \<Longrightarrow> snap_data hint = cfg"
  by (auto simp: pre_vote_def config_snapshot_def config_is_snapshot Let_def split: if_splits)

lemma request_vote_granted:
  assumes "request_vote req s0 t0 = Some (s', t', MustPersistMetadata resp)" "rvr_vote_granted resp"
  shows "rvr_term resp = cm_term s'" "cm_voted_for s' = rvq_candidate_id req" "rvq_term req = cm_term s'"
    "is_follower (cm_state s')" "tk_meta t'"
proof -
  from assms obtain s t where o: "observe_term (rvq_term req) s0 t0 = Some (s, t)" "pre_vote req (tk_time t) s = Some resp"
    by (auto simp: request_vote_def bind_eq_Some_conv split: if_splits consensus_state.splits)
  have le: "rvq_term req \<le> cm_term s" using observe_term_ge [OF o(1)] by simp
  have "pre_vote_should_grant req (tk_time t) s" "rvr_term resp = max (rvq_term req) (cm_term s)"
    using o(2) assms(2) by (auto simp: pre_vote_def Let_def bind_eq_Some_conv)
  then have eq: "rvq_term req = cm_term s" "rvr_term resp = cm_term s"
    using le by (auto simp: pre_vote_should_grant_def split: if_splits)
  show "rvr_term resp = cm_term s'" "cm_voted_for s' = rvq_candidate_id req" "rvq_term req = cm_term s'"
    "is_follower (cm_state s')" "tk_meta t'"
    using assms o eq by (auto simp: request_vote_def is_follower_def split: consensus_state.splits)
qed

lemma request_vote_hint:
  assumes "request_vote req s0 t0 = Some (s', t', MustPersistMetadata resp)" "config_is cfg (cm_config s')"
    "rvr_last_config_hint resp = Some hint"
  shows "snap_data hint = cfg"
proof -
  from assms(1) obtain s now where "pre_vote req now s = Some resp" "cm_config s' = cm_config s"
    by (auto simp: request_vote_def split: Option.bind_splits if_splits consensus_state.splits)
  with assms(2,3) pre_vote_hint show ?thesis by metis
qed

end
