(* ===== verification/Cluster.thy ===== *)
theory Cluster
  imports Consensus_Election
begin

text \<open>
  A cluster of servers, each a consensus module with the metadata on its disk, that exchange
  requests for votes and replies over a network which may lose, repeat and reorder packets,
  and that may crash at any time and restart from disk. Everything else that reaches a server
  (heartbeats, entries, flush notifications, the passing of time) is arbitrary. As the
  contract of \<open>MustPersistMetadata\<close> demands, the reply to a request for a vote leaves the
  server only after the metadata has been written. The membership is fixed.
\<close>

section \<open>Servers, packets and steps\<close>

text \<open>A packet names its sender and its receiver; the flag tells a pre-vote from a vote.\<close>

datatype packet =
    Vote_request server_id server_id request_id bool request_vote_request
  | Vote_reply server_id server_id request_id bool request_vote_response

record node =
  nd_module :: cmodule
  nd_disk :: metadata
  nd_replies :: "(server_id \<times> request_id \<times> request_vote_response) list"

text \<open>
  \<open>cl_votes\<close> records the votes whose fate the disk has settled: \<open>(v, t, c)\<close> when server
  \<open>v\<close> voted for \<open>c\<close> in term \<open>t\<close> and has since written its metadata. No step reads it.
\<close>

record cluster =
  cl_nodes :: "server_id \<Rightarrow> node option"
  cl_net :: "packet set"
  cl_votes :: "(server_id \<times> raft_term \<times> server_id) set"

definition message_packets :: "server_id \<Rightarrow> consensus_message \<Rightarrow> packet list" where
  "message_packets i m = (case msg_body m of
      PreVote req \<Rightarrow> map (\<lambda>j. Vote_request i j (msg_request_id m) True req) (msg_to m)
    | RequestVote req \<Rightarrow> map (\<lambda>j. Vote_request i j (msg_request_id m) False req) (msg_to m)
    | _ \<Rightarrow> [])"

definition sent_packets :: "server_id \<Rightarrow> tick \<Rightarrow> packet set" where
  "sent_packets i t = set (concat (map (message_packets i) (tk_messages t)))"

definition released_packets :: "server_id \<Rightarrow> node \<Rightarrow> packet set" where
  "released_packets i n = set (map (\<lambda>(j, rid, resp). Vote_reply i j rid False resp) (nd_replies n))"

definition meta_votes :: "server_id \<Rightarrow> metadata \<Rightarrow> (server_id \<times> raft_term \<times> server_id) set" where
  "meta_votes i m = (if voted_for m = 0 then {} else {(i, current_term m, voted_for m)})"

definition reply_votes :: "server_id \<Rightarrow> node \<Rightarrow> (server_id \<times> raft_term \<times> server_id) set" where
  "reply_votes i n = {(i, rvr_term resp, j) | j rid resp. (j, rid, resp) \<in> set (nd_replies n) \<and> rvr_vote_granted resp}"

definition set_node :: "server_id \<Rightarrow> node \<Rightarrow> packet set \<Rightarrow> cluster \<Rightarrow> cluster" where
  "set_node i n ps c = c\<lparr>cl_nodes := (cl_nodes c)(i \<mapsto> n), cl_net := cl_net c \<union> ps\<rparr>"

text \<open>Events that do not carry votes and do not change the membership.\<close>

definition local_event :: "configuration \<Rightarrow> event \<Rightarrow> bool" where
  "local_event cfg ev \<longleftrightarrow> (case ev of
      Ev_request_vote _ \<Rightarrow> False
    | Ev_request_vote_callback _ _ _ _ \<Rightarrow> False
    | Ev_persisted_metadata _ \<Rightarrow> False
    | Ev_propose data _ \<Rightarrow> not_config data
    | Ev_append_entries req \<Rightarrow> \<forall>e \<in> set (aeq_entries req). not_config (le_data e)
    | Ev_install_snapshot req \<Rightarrow> snap_data (isq_last_config req) = cfg
    | _ \<Rightarrow> True)"

definition fresh_node :: "configuration \<Rightarrow> server_id \<Rightarrow> node \<Rightarrow> bool" where
  "fresh_node cfg i n \<longleftrightarrow> i \<noteq> 0 \<and> nd_replies n = [] \<and> config_is cfg (cm_config (nd_module n))
     \<and> (\<exists>snap log now r r'. cm_new i (nd_disk n) snap log now r = Some (nd_module n, r'))"

inductive cluster_step :: "configuration \<Rightarrow> cluster \<Rightarrow> cluster \<Rightarrow> bool" for cfg where
  local: "cl_nodes c i = Some n \<Longrightarrow> local_event cfg ev \<Longrightarrow> handle ev (nd_module n) (tick_empty now r) = Some (m, t) \<Longrightarrow>
    cluster_step cfg c (set_node i (n\<lparr>nd_module := m\<rparr>) (sent_packets i t) c)"
| pre_vote_request: "cl_nodes c i = Some n \<Longrightarrow> Vote_request j i rid True req \<in> cl_net c \<Longrightarrow>
    pre_vote req now (nd_module n) = Some resp \<Longrightarrow>
    cluster_step cfg c (set_node i n {Vote_reply i j rid True resp} c)"
| vote_request: "cl_nodes c i = Some n \<Longrightarrow> Vote_request j i rid False req \<in> cl_net c \<Longrightarrow>
    request_vote req (nd_module n) (tick_empty now r) = Some (m, t, MustPersistMetadata resp) \<Longrightarrow>
    cluster_step cfg c (set_node i (n\<lparr>nd_module := m, nd_replies := nd_replies n @ [(j, rid, resp)]\<rparr>) (sent_packets i t) c)"
| vote_reply: "cl_nodes c i = Some n \<Longrightarrow> Vote_reply j i rid pre resp \<in> cl_net c \<Longrightarrow>
    handle (Ev_request_vote_callback j rid pre resp) (nd_module n) (tick_empty now r) = Some (m, t) \<Longrightarrow>
    cluster_step cfg c (set_node i (n\<lparr>nd_module := m\<rparr>) (sent_packets i t) c)"
| persist: "cl_nodes c i = Some n \<Longrightarrow>
    cluster_step cfg c ((set_node i (n\<lparr>nd_disk := cm_meta (nd_module n), nd_replies := []\<rparr>) (released_packets i n) c)
      \<lparr>cl_votes := cl_votes c \<union> reply_votes i n \<union> meta_votes i (cm_meta (nd_module n))\<rparr>)"
| persisted: "cl_nodes c i = Some n \<Longrightarrow>
    handle (Ev_persisted_metadata (nd_disk n)) (nd_module n) (tick_empty now r) = Some (m, t) \<Longrightarrow>
    cluster_step cfg c (set_node i (n\<lparr>nd_module := m\<rparr>) (sent_packets i t) c)"
| restart: "cl_nodes c i = Some n \<Longrightarrow> nd_disk n' = nd_disk n \<Longrightarrow> fresh_node cfg i n' \<Longrightarrow>
    cluster_step cfg c (set_node i n' {} c)"

inductive cluster_reachable :: "configuration \<Rightarrow> cluster \<Rightarrow> bool" for cfg where
  init: "(\<And>i n. cl_nodes c i = Some n \<Longrightarrow> fresh_node cfg i n) \<Longrightarrow> cl_net c = {} \<Longrightarrow>
    cl_votes c = (\<Union>(i, n) \<in> {(i, n). cl_nodes c i = Some n}. meta_votes i (nd_disk n)) \<Longrightarrow> cluster_reachable cfg c"
| step: "cluster_reachable cfg c \<Longrightarrow> cluster_step cfg c c' \<Longrightarrow> cluster_reachable cfg c'"

section \<open>The invariant\<close>

definition settled :: "raft_term \<Rightarrow> server_id \<Rightarrow> metadata \<Rightarrow> bool" where
  "settled tm w m \<longleftrightarrow> tm < current_term m \<or> (tm = current_term m \<and> voted_for m = w)"

lemma settled_mono: "settled tm w m \<Longrightarrow> vote_le m m' \<Longrightarrow> w \<noteq> 0 \<Longrightarrow> settled tm w m'"
  by (auto simp: settled_def vote_le_def)

definition hint_ok :: "configuration \<Rightarrow> request_vote_response \<Rightarrow> bool" where
  "hint_ok cfg resp \<longleftrightarrow> (case rvr_last_config_hint resp of Some hint \<Rightarrow> snap_data hint = cfg | None \<Rightarrow> True)"

type_synonym votes = "(server_id \<times> raft_term \<times> server_id) set"

definition cast_once :: "votes \<Rightarrow> bool" where
  "cast_once vs \<longleftrightarrow> (\<forall>i tm w w'. (i, tm, w) \<in> vs \<and> (i, tm, w') \<in> vs \<longrightarrow> w = w')"

definition own_votes :: "server_id \<Rightarrow> votes \<Rightarrow> votes" where
  "own_votes i vs = {v \<in> vs. fst v = i}"

definition node_inv :: "configuration \<Rightarrow> votes \<Rightarrow> server_id \<Rightarrow> node \<Rightarrow> bool" where
  "node_inv cfg vs i n \<longleftrightarrow> i \<noteq> 0
     \<and> server_fair cfg i (\<lambda>tm v. (v, tm, i) \<in> vs) (nd_module n)
     \<and> vote_le (nd_disk n) (cm_meta (nd_module n))
     \<and> meta_votes i (nd_disk n) \<subseteq> vs
     \<and> (\<forall>tm w. (i, tm, w) \<in> vs \<longrightarrow> w \<noteq> 0 \<and> settled tm w (nd_disk n))
     \<and> (\<forall>tm w. (i, tm, w) \<in> reply_votes i n \<longrightarrow> w \<noteq> 0 \<and> settled tm w (cm_meta (nd_module n)))
     \<and> (\<forall>(j, rid, resp) \<in> set (nd_replies n). hint_ok cfg resp \<and> i \<in> voters cfg)
     \<and> cast_once (own_votes i vs \<union> reply_votes i n)"

definition packet_ok :: "configuration \<Rightarrow> votes \<Rightarrow> packet \<Rightarrow> bool" where
  "packet_ok cfg vs p = (case p of
      Vote_request j i rid pre req \<Rightarrow> pre \<or> (rvq_candidate_id req = j \<and> i \<in> voters cfg \<and> j \<noteq> 0)
    | Vote_reply v j rid pre resp \<Rightarrow> hint_ok cfg resp
        \<and> (\<not> pre \<and> rvr_vote_granted resp \<longrightarrow> v \<in> voters cfg \<and> (v, rvr_term resp, j) \<in> vs))"

definition cluster_inv :: "configuration \<Rightarrow> cluster \<Rightarrow> bool" where
  "cluster_inv cfg c \<longleftrightarrow> (\<forall>i n. cl_nodes c i = Some n \<longrightarrow> node_inv cfg (cl_votes c) i n)
     \<and> (\<forall>p \<in> cl_net c. packet_ok cfg (cl_votes c) p)
     \<and> (\<forall>i tm w. (i, tm, w) \<in> cl_votes c \<longrightarrow> cl_nodes c i \<noteq> None)"

section \<open>Every step keeps the invariant\<close>

lemma handle_fair:
  assumes "conf_wf cfg" "num_aspiring cfg = 0" "server_fair cfg i backed s"
    and "handle ev s (tick_empty now r) = Some (m, t)" "fair_event cfg i backed (cm_meta s) ev"
  shows "server_fair cfg i backed m \<and> vote_le (cm_meta s) (cm_meta m)
    \<and> (\<forall>x \<in> set (tk_messages t). vote_request_sound cfg i x)"
proof (cases "\<exists>p. ev = Ev_log_discarded p")
  case True
  with assms(4) obtain p where "log_discarded p s = Some m" "t = tick_empty now r" by auto
  then show ?thesis using fair_discard assms(3) by (force simp: tick_empty_def)
next
  case False
  have "tk_messages (tick_empty now r) = []" by (simp add: tick_empty_def)
  from fair_handle [OF assms(1-3) this assms(4) False assms(5)] show ?thesis by blast
qed

lemma sent_packets_ok:
  assumes "\<forall>x \<in> set (tk_messages t). vote_request_sound cfg i x" "i \<noteq> 0" "p \<in> sent_packets i t"
  shows "packet_ok cfg vs p"
proof -
  from assms(3) obtain m where m: "m \<in> set (tk_messages t)" "p \<in> set (message_packets i m)"
    by (auto simp: sent_packets_def)
  with assms(1) have "vote_request_sound cfg i m" by blast
  with m(2) assms(2) show ?thesis
    by (auto simp: message_packets_def packet_ok_def vote_request_sound_def split: consensus_message_body.splits)
qed

lemma set_node_inv:
  assumes "cluster_inv cfg c" "cl_nodes c i \<noteq> None" "node_inv cfg (cl_votes c) i n" "\<And>p. p \<in> ps \<Longrightarrow> packet_ok cfg (cl_votes c) p"
  shows "cluster_inv cfg (set_node i n ps c)"
  using assms by (auto simp: cluster_inv_def set_node_def)

lemma reply_votes_simps [simp]:
  "reply_votes i (n\<lparr>nd_module := m\<rparr>) = reply_votes i n"
  "reply_votes i (n\<lparr>nd_disk := d, nd_replies := []\<rparr>) = {}"
  "reply_votes i (n\<lparr>nd_module := m, nd_replies := nd_replies n @ [(j, rid, resp)]\<rparr>) =
    (if rvr_vote_granted resp then insert (i, rvr_term resp, j) (reply_votes i n) else reply_votes i n)"
  by (auto simp: reply_votes_def)

lemma node_inv_module:
  assumes "node_inv cfg vs i n" "server_fair cfg i (\<lambda>tm v. (v, tm, i) \<in> vs) m" "vote_le (cm_meta (nd_module n)) (cm_meta m)"
  shows "node_inv cfg vs i (n\<lparr>nd_module := m\<rparr>)"
  using assms vote_le_trans settled_mono unfolding node_inv_def by fastforce

lemma handle_step:
  assumes "conf_wf cfg" "num_aspiring cfg = 0" "cluster_inv cfg c" "cl_nodes c i = Some n"
    and "handle ev (nd_module n) (tick_empty now r) = Some (m, t)"
    and "fair_event cfg i (\<lambda>tm v. (v, tm, i) \<in> cl_votes c) (cm_meta (nd_module n)) ev"
  shows "cluster_inv cfg (set_node i (n\<lparr>nd_module := m\<rparr>) (sent_packets i t) c)"
proof -
  have n: "node_inv cfg (cl_votes c) i n" using assms(3,4) by (simp add: cluster_inv_def)
  then have "server_fair cfg i (\<lambda>tm v. (v, tm, i) \<in> cl_votes c) (nd_module n)" "i \<noteq> 0" by (simp_all add: node_inv_def)
  with handle_fair [OF assms(1,2) _ assms(5,6)] n assms(3,4) show ?thesis
    by (intro set_node_inv) (auto intro: node_inv_module sent_packets_ok)
qed

lemma claims_settled:
  assumes "node_inv cfg vs i n" "(i, tm, w) \<in> own_votes i vs \<union> reply_votes i n"
  shows "w \<noteq> 0 \<and> settled tm w (cm_meta (nd_module n))"
  using assms settled_mono [of tm w "nd_disk n"] by (auto simp: node_inv_def own_votes_def)

lemma cast_once_insert:
  "cast_once vs \<Longrightarrow> (\<And>w. (i, tm, w) \<in> vs \<Longrightarrow> w = v) \<Longrightarrow> cast_once (insert (i, tm, v) vs)"
  unfolding cast_once_def by blast

lemma claims_owner: "x \<in> own_votes i vs \<union> reply_votes i n \<Longrightarrow> fst x = i"
  by (auto simp: own_votes_def reply_votes_def)

lemma vote_request_step:
  assumes "conf_wf cfg" "num_aspiring cfg = 0" "cluster_inv cfg c" "cl_nodes c i = Some n"
    and pkt: "Vote_request j i rid False req \<in> cl_net c"
    and rv: "request_vote req (nd_module n) (tick_empty now r) = Some (m, t, MustPersistMetadata resp)"
  shows "cluster_inv cfg (set_node i (n\<lparr>nd_module := m, nd_replies := nd_replies n @ [(j, rid, resp)]\<rparr>) (sent_packets i t) c)"
proof -
  let ?vs = "cl_votes c" and ?n = "n\<lparr>nd_module := m, nd_replies := nd_replies n @ [(j, rid, resp)]\<rparr>"
  have n: "node_inv cfg ?vs i n" using assms(3,4) by (simp add: cluster_inv_def)
  have j: "rvq_candidate_id req = j" "i \<in> voters cfg" "j \<noteq> 0"
    using assms(3) pkt by (auto simp: cluster_inv_def packet_ok_def)
  have h: "handle (Ev_request_vote req) (nd_module n) (tick_empty now r) = Some (m, t)" using rv by simp
  have f: "server_fair cfg i (\<lambda>tm v. (v, tm, i) \<in> ?vs) m" "vote_le (cm_meta (nd_module n)) (cm_meta m)"
    "\<forall>x \<in> set (tk_messages t). vote_request_sound cfg i x"
    using handle_fair [OF assms(1,2) _ h] n by (auto simp: node_inv_def fair_event_def)
  have nm: "node_inv cfg ?vs i (n\<lparr>nd_module := m\<rparr>)" by (rule node_inv_module [OF n f(1,2)])
  have hint: "hint_ok cfg resp"
    using request_vote_hint [OF rv] f(1) by (auto simp: hint_ok_def server_fair_def split: option.splits)
  have granted: "rvr_term resp = cm_term m" "cm_voted_for m = j" if "rvr_vote_granted resp"
    using request_vote_granted [OF rv that] j by auto
  have "cast_once (own_votes i ?vs \<union> reply_votes i ?n)"
  proof (cases "rvr_vote_granted resp")
    case True
    have "w = j" if "(i, cm_term m, w) \<in> own_votes i ?vs \<union> reply_votes i n" for w
      using claims_settled [OF nm, of "cm_term m" w] that granted [OF True] by (auto simp: settled_def)
    then have "cast_once (insert (i, cm_term m, j) (own_votes i ?vs \<union> reply_votes i n))"
      using nm by (intro cast_once_insert) (auto simp: node_inv_def)
    then show ?thesis using granted [OF True] True by simp
  qed (use nm in \<open>auto simp: node_inv_def\<close>)
  moreover have "w \<noteq> 0 \<and> settled tm w (cm_meta m)" if "(i, tm, w) \<in> reply_votes i ?n" for tm w
    using that claims_settled [OF nm, of tm w] granted j(3) by (auto simp: settled_def split: if_splits)
  ultimately have "node_inv cfg ?vs i ?n"
    using nm hint j(2) by (auto simp: node_inv_def)
  moreover have "i \<noteq> 0" using n by (simp add: node_inv_def)
  ultimately show ?thesis
    using assms(3,4) sent_packets_ok [OF f(3)] by (intro set_node_inv) auto
qed

lemma vote_reply_fair:
  "packet_ok cfg vs (Vote_reply j i rid pre resp) \<Longrightarrow>
   fair_event cfg i (\<lambda>tm v. (v, tm, i) \<in> vs) m0 (Ev_request_vote_callback j rid pre resp)"
  by (auto simp: packet_ok_def fair_event_def hint_ok_def)

lemma persisted_fair:
  "node_inv cfg vs i n \<Longrightarrow>
   fair_event cfg i (\<lambda>tm v. (v, tm, i) \<in> vs) (cm_meta (nd_module n)) (Ev_persisted_metadata (nd_disk n))"
  by (auto simp: node_inv_def fair_event_def meta_votes_def split: if_splits)

lemma packet_ok_mono: "packet_ok cfg vs p \<Longrightarrow> vs \<subseteq> vs' \<Longrightarrow> packet_ok cfg vs' p"
  by (auto simp: packet_ok_def split: packet.splits)

text \<open>Writing the metadata of one server does not concern the votes of the others.\<close>

lemma node_inv_other:
  assumes "node_inv cfg vs k n" "\<And>x. x \<in> new \<Longrightarrow> fst x \<noteq> k"
  shows "node_inv cfg (vs \<union> new) k n"
proof -
  have own: "own_votes k (vs \<union> new) = own_votes k vs" "\<And>tm w. (k, tm, w) \<in> vs \<union> new \<longleftrightarrow> (k, tm, w) \<in> vs"
    using assms(2) by (fastforce simp: own_votes_def)+
  have "server_fair cfg k (\<lambda>tm v. (v, tm, k) \<in> vs \<union> new) (nd_module n)"
    using assms(1) by (auto simp: node_inv_def intro: server_fair_mono)
  then show ?thesis using assms(1) own by (auto simp: node_inv_def)
qed

lemma released_packets_ok:
  assumes "node_inv cfg vs i n" "p \<in> released_packets i n" "reply_votes i n \<subseteq> vs'"
  shows "packet_ok cfg vs' p"
proof -
  from assms(2) obtain j rid resp where p: "(j, rid, resp) \<in> set (nd_replies n)" "p = Vote_reply i j rid False resp"
    by (auto simp: released_packets_def)
  have "hint_ok cfg resp \<and> i \<in> voters cfg" using assms(1) p(1) by (force simp: node_inv_def)
  moreover have "(i, rvr_term resp, j) \<in> vs'" if "rvr_vote_granted resp"
    using assms(3) p(1) that unfolding reply_votes_def by blast
  ultimately show ?thesis by (simp add: packet_ok_def p(2))
qed

lemma persist_step:
  assumes "cluster_inv cfg c" "cl_nodes c i = Some n"
  shows "cluster_inv cfg ((set_node i (n\<lparr>nd_disk := cm_meta (nd_module n), nd_replies := []\<rparr>) (released_packets i n) c)
      \<lparr>cl_votes := cl_votes c \<union> reply_votes i n \<union> meta_votes i (cm_meta (nd_module n))\<rparr>)"
proof -
  let ?m = "cm_meta (nd_module n)" and ?vs = "cl_votes c"
  let ?new = "reply_votes i n \<union> meta_votes i ?m"
  let ?n = "n\<lparr>nd_disk := ?m, nd_replies := []\<rparr>"
  have n: "node_inv cfg ?vs i n" using assms by (simp add: cluster_inv_def)
  have own: "own_votes i (?vs \<union> ?new) = (own_votes i ?vs \<union> reply_votes i n) \<union> meta_votes i ?m"
    by (auto simp: own_votes_def reply_votes_def meta_votes_def)
  have set: "w \<noteq> 0 \<and> settled tm w ?m" if "(i, tm, w) \<in> ?vs \<union> ?new" for tm w
  proof -
    from that consider "(i, tm, w) \<in> own_votes i ?vs \<union> reply_votes i n" | "(i, tm, w) \<in> meta_votes i ?m"
      by (auto simp: own_votes_def)
    then show ?thesis using claims_settled [OF n] by cases (auto simp: meta_votes_def settled_def split: if_splits)
  qed
  have "cast_once (own_votes i (?vs \<union> ?new))"
  proof (cases "voted_for ?m = 0")
    case True
    then show ?thesis using n own by (simp add: node_inv_def meta_votes_def)
  next
    case False
    have "w = voted_for ?m" if "(i, current_term ?m, w) \<in> own_votes i ?vs \<union> reply_votes i n" for w
      using claims_settled [OF n that] by (simp add: settled_def)
    then have "cast_once (insert (i, current_term ?m, voted_for ?m) (own_votes i ?vs \<union> reply_votes i n))"
      using n by (intro cast_once_insert) (auto simp: node_inv_def)
    then show ?thesis using own False by (simp add: meta_votes_def)
  qed
  moreover have "server_fair cfg i (\<lambda>tm v. (v, tm, i) \<in> ?vs \<union> ?new) (nd_module n)"
    using n by (auto simp: node_inv_def intro: server_fair_mono)
  ultimately have ni: "node_inv cfg (?vs \<union> ?new) i ?n"
    using n set by (auto simp: node_inv_def reply_votes_def)
  have others: "node_inv cfg (?vs \<union> ?new) k nk" if "cl_nodes c k = Some nk" "k \<noteq> i" for k nk
    using assms(1) that by (intro node_inv_other) (auto simp: cluster_inv_def reply_votes_def meta_votes_def split: if_splits)
  have "packet_ok cfg (?vs \<union> ?new) p" if "p \<in> released_packets i n" for p
    by (rule released_packets_ok [OF n that]) blast
  moreover have "packet_ok cfg (?vs \<union> ?new) p" if "p \<in> cl_net c" for p
    using assms(1) that by (auto simp: cluster_inv_def intro: packet_ok_mono)
  ultimately show ?thesis
    using ni others assms
    by (auto simp: cluster_inv_def set_node_def Un_assoc reply_votes_def meta_votes_def split: if_splits)
qed

text \<open>A server that starts from disk has not voted beyond what the disk says.\<close>

lemma cm_new_meta:
  assumes "cm_new i d snap log now r = Some (s, r')"
  shows "cm_id s = i" "is_follower (cm_state s)" "cm_persisted_meta s = cm_meta s" "vote_le d (cm_meta s)"
    "voted_for (cm_meta s) \<noteq> 0 \<Longrightarrow> cm_meta s = d"
proof -
  from assms obtain lt where m: "cm_meta s = (if lt > current_term d then d\<lparr>current_term := lt, voted_for := 0\<rparr> else d)"
    "cm_id s = i \<and> is_follower (cm_state s) \<and> cm_persisted_meta s = cm_meta s"
    by (auto simp: cm_new_def Let_def new_follower_eq is_follower_def bind_eq_Some_conv case_prod_beta)
  then show "cm_id s = i" "is_follower (cm_state s)" "cm_persisted_meta s = cm_meta s" "vote_le d (cm_meta s)"
    "voted_for (cm_meta s) \<noteq> 0 \<Longrightarrow> cm_meta s = d"
    by (auto simp: vote_le_def split: if_splits)
qed

lemma fresh_node_inv:
  assumes "fresh_node cfg i n" "meta_votes i (nd_disk n) \<subseteq> vs" "cast_once (own_votes i vs)"
    and "\<And>tm w. (i, tm, w) \<in> vs \<Longrightarrow> w \<noteq> 0 \<and> settled tm w (nd_disk n)"
  shows "node_inv cfg vs i n"
proof -
  from assms(1) obtain snap log now r r' where "cm_new i (nd_disk n) snap log now r = Some (nd_module n, r')"
    by (auto simp: fresh_node_def)
  note m = cm_new_meta [OF this]
  obtain f where "cm_state (nd_module n) = Follower f"
    using m(2) by (cases "cm_state (nd_module n)") (auto simp: is_follower_def)
  then have "server_fair cfg i (\<lambda>tm v. (v, tm, i) \<in> vs) (nd_module n)"
    using assms(1,2) m by (auto simp: server_fair_def fresh_node_def self_voted_def meta_votes_def)
  then show ?thesis
    using assms m(4) by (auto simp: node_inv_def fresh_node_def reply_votes_def)
qed

lemma cast_once_subset: "cast_once vs \<Longrightarrow> vs' \<subseteq> vs \<Longrightarrow> cast_once vs'"
  unfolding cast_once_def by blast

lemma init_inv:
  assumes "\<And>i n. cl_nodes c i = Some n \<Longrightarrow> fresh_node cfg i n" "cl_net c = {}"
    and vs: "cl_votes c = (\<Union>(i, n) \<in> {(i, n). cl_nodes c i = Some n}. meta_votes i (nd_disk n))"
  shows "cluster_inv cfg c"
proof -
  have v: "(i, tm, w) \<in> cl_votes c \<longleftrightarrow> (\<exists>n. cl_nodes c i = Some n \<and> tm = current_term (nd_disk n) \<and> w = voted_for (nd_disk n) \<and> w \<noteq> 0)"
    for i tm w
    by (auto simp: vs meta_votes_def split: if_splits)
  have "node_inv cfg (cl_votes c) i n" if "cl_nodes c i = Some n" for i n
    by (rule fresh_node_inv [OF assms(1) [OF that]])
      (use that in \<open>auto simp: meta_votes_def v own_votes_def cast_once_def settled_def\<close>)
  then show ?thesis using assms(2) by (auto simp: cluster_inv_def v)
qed

lemma step_inv:
  assumes "cluster_step cfg c c'" "conf_wf cfg" "num_aspiring cfg = 0" "cluster_inv cfg c"
  shows "cluster_inv cfg c'"
  using assms(1)
proof cases
  case (local i n ev now r m t)
  then have "fair_event cfg i (\<lambda>tm v. (v, tm, i) \<in> cl_votes c) (cm_meta (nd_module n)) ev"
    by (auto simp: local_event_def fair_event_def split: event.splits)
  with local handle_step [OF assms(2-4)] show ?thesis by blast
next
  case (pre_vote_request i n j rid req now resp)
  then have n: "node_inv cfg (cl_votes c) i n" using assms(4) by (simp add: cluster_inv_def)
  then have "config_is cfg (cm_config (nd_module n))" by (simp add: node_inv_def server_fair_def)
  with pre_vote_request(4) have "hint_ok cfg resp"
    using pre_vote_hint by (auto simp: hint_ok_def split: option.splits)
  with n pre_vote_request assms(4) show ?thesis by (auto intro!: set_node_inv simp: packet_ok_def)
next
  case (vote_request i n j rid req now r m t resp)
  then show ?thesis using vote_request_step [OF assms(2-4)] by blast
next
  case (vote_reply i n j rid pre resp now r m t)
  then have "packet_ok cfg (cl_votes c) (Vote_reply j i rid pre resp)" using assms(4) by (auto simp: cluster_inv_def)
  from vote_reply handle_step [OF assms(2-4) _ _ vote_reply_fair [OF this]] show ?thesis by blast
next
  case (persist i n)
  then show ?thesis using persist_step [OF assms(4)] by simp
next
  case (persisted i n now r m t)
  then have "node_inv cfg (cl_votes c) i n" using assms(4) by (simp add: cluster_inv_def)
  from persisted handle_step [OF assms(2-4) _ _ persisted_fair [OF this]] show ?thesis by blast
next
  case (restart i n n')
  then have n: "node_inv cfg (cl_votes c) i n" using assms(4) by (simp add: cluster_inv_def)
  have "node_inv cfg (cl_votes c) i n'"
  proof (rule fresh_node_inv [OF restart(4)])
    show "cast_once (own_votes i (cl_votes c))"
      using n by (auto simp: node_inv_def intro: cast_once_subset)
  qed (use n restart(3) in \<open>auto simp: node_inv_def\<close>)
  with restart assms(4) show ?thesis by (auto intro!: set_node_inv)
qed

lemma reachable_inv:
  assumes "cluster_reachable cfg c" "conf_wf cfg" "num_aspiring cfg = 0"
  shows "cluster_inv cfg c"
  using assms(1)
proof induction
  case (init c)
  then show ?case by (rule init_inv)
next
  case (step c c')
  then show ?case using step_inv assms(2,3) by blast
qed

text \<open>Two majorities share a voter, and that voter has voted once in the term.\<close>

lemma same_term_same_leader:
  assumes "cluster_inv cfg c" "cl_nodes c a = Some x" "cl_nodes c b = Some y"
    and "is_leader (cm_state (nd_module x))" "is_leader (cm_state (nd_module y))" "cm_term (nd_module x) = cm_term (nd_module y)"
  shows "a = b"
proof -
  let ?tm = "cm_term (nd_module x)" and ?vs = "cl_votes c"
  have "quorum_backed cfg (\<lambda>tm v. (v, tm, i) \<in> ?vs) (cm_term (nd_module n))"
    if "cl_nodes c i = Some n" "is_leader (cm_state (nd_module n))" for i n
  proof -
    have "role_backed cfg i (\<lambda>tm v. (v, tm, i) \<in> ?vs) (cm_term (nd_module n)) (cm_state (nd_module n))"
      using assms(1) that(1) by (auto simp: cluster_inv_def node_inv_def server_fair_def)
    then show ?thesis using that(2) by (cases "cm_state (nd_module n)") (auto simp: is_leader_def)
  qed
  from this [OF assms(2,4)] this [OF assms(3,5)] obtain A B where
    "is_quorum cfg A" "\<forall>v \<in> A. (v, ?tm, a) \<in> ?vs" "is_quorum cfg B" "\<forall>v \<in> B. (v, ?tm, b) \<in> ?vs"
    by (auto simp: quorum_backed_def assms(6))
  moreover from this obtain v where v: "v \<in> A" "v \<in> B" using same_conf.common_member by blast
  ultimately have vab: "(v, ?tm, a) \<in> ?vs" "(v, ?tm, b) \<in> ?vs" by blast+
  then obtain n where "cl_nodes c v = Some n" using assms(1) unfolding cluster_inv_def by blast
  then have "cast_once (own_votes v ?vs)"
    using assms(1) by (auto simp: cluster_inv_def node_inv_def intro: cast_once_subset)
  with vab show ?thesis unfolding cast_once_def own_votes_def by fastforce
qed

end
