(* ===== verification/Leader_Commit.thy ===== *)
theory Leader_Commit
  imports Consensus_Properties Quorum
begin

text \<open>
  What a leader may commit and how long its lease lasts. \<open>find_next_commit_index\<close> sorts the
  indexes that the voters have flushed and takes the one in the place of the majority; the
  theorems say that this is the greatest index that a quorum has flushed, and the same for the
  times of \<open>find_next_lease_start\<close>.
\<close>

section \<open>The element in a place of a sorted list\<close>

lemma filter_ge_mono:
  fixes a b :: "'a::linorder"
  assumes "a \<le> b"
  shows "length (filter (\<lambda>x. b \<le> x) xs) \<le> length (filter (\<lambda>x. a \<le> x) xs)"
  using assms by (induction xs) auto

lemma nth_rev_sort_ge_iff:
  fixes xs :: "'a::linorder list"
  assumes k: "0 < k" "k \<le> length xs"
  shows "v \<le> rev (sort xs) ! (k - 1) \<longleftrightarrow> k \<le> length (filter (\<lambda>x. v \<le> x) xs)"
proof
  assume "v \<le> rev (sort xs) ! (k - 1)"
  from filter_ge_mono [OF this, of xs] show "k \<le> length (filter (\<lambda>x. v \<le> x) xs)"
    using nth_rev_sort_count [OF k] by linarith
next
  assume le: "k \<le> length (filter (\<lambda>x. v \<le> x) xs)"
  let ?d = "rev (sort xs)"
  show "v \<le> ?d ! (k - 1)"
  proof (rule ccontr)
    assume "\<not> v \<le> ?d ! (k - 1)"
    then have lt: "?d ! (k - 1) < v" by simp
    have "x < v" if "x \<in> set (drop (k - 1) ?d)" for x
    proof -
      from that obtain i where "i < length xs - (k - 1)" "x = ?d ! (k - 1 + i)"
        by (auto simp: in_set_conv_nth)
      then have i: "k - 1 + i < length ?d" "x = ?d ! (k - 1 + i)" by simp_all
      have "sorted_wrt (\<ge>) ?d" by (simp add: sorted_wrt_rev)
      then have "x \<le> ?d ! (k - 1)"
        using i by (cases i) (auto simp: sorted_wrt_iff_nth_less)
      then show ?thesis using lt by simp
    qed
    then have "filter (\<lambda>x. v \<le> x) (drop (k - 1) ?d) = []" by (auto simp: filter_empty_conv not_le)
    moreover have "filter (\<lambda>x. v \<le> x) ?d = filter (\<lambda>x. v \<le> x) (take (k - 1) ?d) @ filter (\<lambda>x. v \<le> x) (drop (k - 1) ?d)"
      by (metis append_take_drop_id filter_append)
    ultimately have "length (filter (\<lambda>x. v \<le> x) ?d) \<le> k - 1"
      by (metis append_Nil2 length_filter_le length_take min.bounded_iff le_trans min.cobounded2)
    moreover have "length (filter (\<lambda>x. v \<le> x) ?d) = length (filter (\<lambda>x. v \<le> x) xs)"
      by (metis length_rev mset_filter mset_rev mset_sort rev_filter size_mset)
    ultimately show False using le k by linarith
  qed
qed

section \<open>Flushed indexes\<close>

lemma lm_lookup_seq_total: "lm_wf m \<Longrightarrow> \<exists>r. lm_lookup_seq m q = Some r"
  using search_sequence [OF lm_wfD(2), of m q]
  by (fastforce simp: lm_lookup_seq_def index_vec_lt sub_u64_le split: option.splits)

definition match_index_of :: "cmodule \<Rightarrow> leader_state \<Rightarrow> server_id \<Rightarrow> log_index" where
  "match_index_of s l v = (case server_match_index s l v of Some i \<Rightarrow> i | None \<Rightarrow> 0)"

definition replicated_on :: "cmodule \<Rightarrow> leader_state \<Rightarrow> log_index \<Rightarrow> server_id set" where
  "replicated_on s l i = {v \<in> voters (cm_conf s). i \<le> match_index_of s l v}"

lemma collect_match_indexes_eq:
  assumes "lm_wf (cm_log_meta s)"
  shows "collect_match_indexes s l vs =
    Some (map (\<lambda>v. match_index_of s l (srv_id v)) (filter (\<lambda>v. srv_role v = MEMBER) vs))"
proof (induction vs)
  case (Cons v vs)
  have "server_match_index s l (srv_id v) = Some (match_index_of s l (srv_id v))"
    using lm_lookup_seq_total [OF assms, of "cm_log_last_flushed s"]
    by (auto simp: match_index_of_def server_match_index_def)
  with Cons show ?case by simp
qed simp

lemma count_members:
  assumes "conf_wf cfg"
  shows "length (filter P (map (\<lambda>v. f (srv_id v)) (filter (\<lambda>v. srv_role v = MEMBER) (servers cfg)))) =
    card {v \<in> voters cfg. P (f v)}"
proof -
  let ?ms = "filter (\<lambda>v. P (f (srv_id v))) (filter (\<lambda>v. srv_role v = MEMBER) (servers cfg))"
  have "distinct (map srv_id ?ms)" using assms by (simp add: conf_wf_def conf_ids_def distinct_map_filter)
  moreover have "set (map srv_id ?ms) = {v \<in> voters cfg. P (f v)}" by (auto simp: voters_def)
  ultimately have "card {v \<in> voters cfg. P (f v)} = length (map srv_id ?ms)"
    using distinct_card [of "map srv_id ?ms"] by simp
  then show ?thesis by (simp only: filter_map comp_def length_map)
qed

lemma replicated_quorum:
  "conf_wf (cm_conf s) \<Longrightarrow> is_quorum (cm_conf s) (replicated_on s l i) \<longleftrightarrow> cm_majority s \<le> card (replicated_on s l i)"
  by (auto simp: is_quorum_def replicated_on_def cm_majority_def)

lemma majority_of_voters:
  assumes "conf_wf cfg" "voters cfg \<noteq> {}"
  shows "0 < majority_size cfg" "majority_size cfg \<le> num_voters cfg"
proof -
  have "0 < card (voters cfg)" using assms by (simp add: card_gt_0_iff)
  then have "Suc (card (voters cfg) div 2) \<le> card (voters cfg)" by presburger
  then show "majority_size cfg \<le> num_voters cfg" using assms(2) by (simp add: majority_size_def num_voters_card [OF assms(1)])
qed (rule majority_size_pos)

lemma next_commit_index_iff:
  assumes wf: "lm_wf (cm_log_meta s)" "conf_wf (cm_conf s)" "voters (cm_conf s) \<noteq> {}"
  shows "\<exists>r. find_next_commit_index s l = Some r \<and> (\<forall>i. r = Some i \<longleftrightarrow>
    cm_last_index s \<noteq> cm_commit_index s \<and> cm_commit_index s < i
    \<and> is_quorum (cm_conf s) (replicated_on s l i) \<and> \<not> is_quorum (cm_conf s) (replicated_on s l (i + 1))
    \<and> map_option off_term (lm_at (cm_log_meta s) i) = Some (cm_term s))"
proof -
  let ?ms = "map (\<lambda>v. match_index_of s l (srv_id v)) (filter (\<lambda>v. srv_role v = MEMBER) (servers (cm_conf s)))"
  let ?k = "cm_majority s"
  define x where "x = rev (sort ?ms) ! (?k - 1)"
  have len: "length ?ms = num_voters (cm_conf s)" by (simp add: num_voters_def)
  have k: "0 < ?k" "?k \<le> length ?ms"
    using majority_of_voters [OF wf(2,3)] len by (simp_all add: cm_majority_def)
  have ge: "i \<le> x \<longleftrightarrow> is_quorum (cm_conf s) (replicated_on s l i)" for i
    using nth_rev_sort_ge_iff [OF k, of i] count_members [OF wf(2), of "\<lambda>y. i \<le> y" "match_index_of s l"]
    unfolding x_def replicated_quorum [OF wf(2)] by (simp add: replicated_on_def)
  have quorum: "is_quorum (cm_conf s) (replicated_on s l i) \<and> \<not> is_quorum (cm_conf s) (replicated_on s l (i + 1)) \<longleftrightarrow> i = x" for i
    using ge [of i] ge [of "i + 1"] by linarith
  have sub: "sub_u64 ?k 1 = Some (?k - 1)" using k(1) by (simp add: sub_u64_le)
  have idx: "index_vec (rev (sort ?ms)) (?k - 1) = Some x"
    using k by (simp add: index_vec_lt x_def)
  have found: "find_next_commit_index s l = Some (if cm_last_index s = cm_commit_index s \<or> x \<le> cm_commit_index s then None
      else case lm_at (cm_log_meta s) x of None \<Rightarrow> None | Some off \<Rightarrow> if off_term off \<noteq> cm_term s then None else Some x)"
    unfolding find_next_commit_index_def collect_match_indexes_eq [OF wf(1)] sub Option.bind.simps idx
    by (simp add: lm_lookup_at [OF wf(1)])
  have rhs: "(cm_last_index s \<noteq> cm_commit_index s \<and> cm_commit_index s < i
    \<and> is_quorum (cm_conf s) (replicated_on s l i) \<and> \<not> is_quorum (cm_conf s) (replicated_on s l (i + 1))
    \<and> map_option off_term (lm_at (cm_log_meta s) i) = Some (cm_term s)) \<longleftrightarrow> (cm_last_index s \<noteq> cm_commit_index s \<and> cm_commit_index s < x
    \<and> i = x \<and> map_option off_term (lm_at (cm_log_meta s) x) = Some (cm_term s))" for i
    using quorum [of i] by blast
  show ?thesis
    by (rule exI, rule conjI [OF found], rule allI, unfold rhs, cases "lm_at (cm_log_meta s) x") auto
qed


section \<open>Leases\<close>

definition heard_since :: "cmodule \<Rightarrow> leader_state \<Rightarrow> instant \<Rightarrow> server_id set" where
  "heard_since s l x = {v \<in> voters (cm_conf s). v = cm_id s \<or>
     (case map_of (ld_followers l) v of Some p \<Rightarrow> (case pr_lease_start p of Some y \<Rightarrow> x \<le> y | None \<Rightarrow> False) | None \<Rightarrow> False)}"

lemma map_filter_count:
  "length (filter P (List.map_filter f xs)) = length (filter (\<lambda>x. case f x of Some y \<Rightarrow> P y | None \<Rightarrow> False) xs)"
  by (induction xs) (auto simp: List.map_filter_simps split: option.splits)

lemma lease_times_count:
  assumes d: "distinct (map fst (ld_followers l))" and me: "cm_id s \<notin> fst ` set (ld_followers l)" "cm_id s \<in> voters (cm_conf s)"
    and wf: "conf_wf (cm_conf s)"
  shows "Suc (length (filter (\<lambda>y. x \<le> y) (lease_start_times s l))) \<le> card (heard_since s l x)"
proof -
  let ?ok = "\<lambda>(fid, p). server_role (cm_conf s) fid = MEMBER \<and> (case pr_lease_start p of Some y \<Rightarrow> x \<le> y | None \<Rightarrow> False)"
  let ?fs = "filter ?ok (ld_followers l)"
  have "length (filter (\<lambda>y. x \<le> y) (lease_start_times s l)) = length ?fs"
    unfolding lease_start_times_def map_filter_count by (rule arg_cong [where f = length], rule filter_cong) (auto split: option.splits if_splits)
  also have "\<dots> = card (fst ` set ?fs)"
    using distinct_card [OF distinct_map_filter [OF d, of ?ok]] by simp
  finally have n: "length (filter (\<lambda>y. x \<le> y) (lease_start_times s l)) = card (fst ` set ?fs)" .
  have "v \<in> heard_since s l x" if "v \<in> fst ` set ?fs" for v
  proof -
    from that obtain p where "(v, p) \<in> set (ld_followers l)" "server_role (cm_conf s) v = MEMBER"
      "case pr_lease_start p of Some y \<Rightarrow> x \<le> y | None \<Rightarrow> False" by auto
    then show ?thesis using map_of_is_SomeI [OF d] voters_role [OF wf] by (simp add: heard_since_def)
  qed
  then have sub: "insert (cm_id s) (fst ` set ?fs) \<subseteq> heard_since s l x" using me(2) by (auto simp: heard_since_def)
  have fin: "finite (heard_since s l x)" by (simp add: heard_since_def)
  have "card (insert (cm_id s) (fst ` set ?fs)) = Suc (card (fst ` set ?fs))"
    by (rule card_insert_disjoint) (use me(1) in auto)
  with card_mono [OF fin sub] show ?thesis by (simp only: n)
qed

lemma lease_heard:
  assumes d: "distinct (map fst (ld_followers l))" and me: "cm_id s \<notin> fst ` set (ld_followers l)" "cm_id s \<in> voters (cm_conf s)"
    and wf: "conf_wf (cm_conf s)" and r: "find_next_lease_start s l now = Some x" and later: "ld_lease_start l < x"
  shows "is_quorum (cm_conf s) (heard_since s l x)"
proof -
  let ?k = "cm_majority s" and ?ts = "lease_start_times s l"
  have role: "server_role (cm_conf s) (cm_id s) = MEMBER" using me(2) voters_role [OF wf] by simp
  have pos: "0 < ?k" by (simp add: cm_majority_def majority_size_pos)
  then have sub: "sub_u64 ?k 1 = Some (?k - 1)" by (simp add: sub_u64_le)
  have "?k \<le> card (heard_since s l x)"
  proof (cases "?k = 1")
    case True
    then show ?thesis using lease_times_count [OF d me wf, of x] by simp
  next
    case False
    with r later role sub have m: "?k - 1 \<le> length ?ts" "x = rev (sort ?ts) ! (?k - 1 - 1)"
      by (auto simp: find_next_lease_start_def Let_def not_less index_vec_def split: if_splits Option.bind_splits)
    then have "?k - 1 \<le> length (filter (\<lambda>y. x \<le> y) ?ts)"
      using False pos nth_rev_sort_ge_iff [of "?k - 1" ?ts x] by simp
    then show ?thesis using lease_times_count [OF d me wf, of x] by linarith
  qed
  then show ?thesis using wf by (auto simp: is_quorum_def cm_majority_def heard_since_def)
qed

section \<open>Theorems\<close>

text \<open>Server 1 of the small cluster as its leader: server 2 has the entry and answered at time 5.\<close>

definition trio_leader_state :: leader_state where
  "trio_leader_state = \<lparr>ld_followers = [(2, (progress_new 1)\<lparr>pr_match_index := 1, pr_lease_start := Some 5\<rparr>), (3, progress_new 1)],
     ld_min_read_index = 2, ld_lease_start = 0, ld_heartbeat_now = False\<rparr>"

definition trio_leader :: cmodule where
  "trio_leader = trio_follower\<lparr>cm_state := Leader trio_leader_state, cm_meta := trio_meta\<lparr>voted_for := 1\<rparr>\<rparr>"

lemma trio_leader_wf: "lm_wf (cm_log_meta trio_leader)" "conf_wf (cm_conf trio_leader)" "cm_conf trio_leader = trio_conf"
  by (simp_all add: trio_leader_def trio_follower_def trio_log_meta_def lm_wf_def follows_def zero_offset_def zero_sequence_def
      shift_offset_def conf_wf_def conf_ids_def trio_conf_def)

lemma trio_voters: "voters trio_conf = {1, 2, 3}"
  by code_simp

text \<open>
  C9: A leader commits by majority. \<open>find_next_commit_index\<close> never panics on a well-formed log
  with at least one voter, and it proposes an index exactly when that index lies above the
  commit index, a quorum of the voters has flushed the log up to it but not beyond it, and the
  entry at it belongs to the leader's own term.
\<close>

theorem next_commit_index_exact:
  assumes "lm_wf (cm_log_meta s)" "conf_wf (cm_conf s)" "voters (cm_conf s) \<noteq> {}"
  shows "\<exists>r. find_next_commit_index s l = Some r \<and> (\<forall>i. r = Some i \<longleftrightarrow>
    cm_last_index s \<noteq> cm_commit_index s \<and> cm_commit_index s < i
    \<and> is_quorum (cm_conf s) (replicated_on s l i) \<and> \<not> is_quorum (cm_conf s) (replicated_on s l (i + 1))
    \<and> map_option off_term (lm_at (cm_log_meta s) i) = Some (cm_term s))"
  by (rule next_commit_index_iff [OF assms])

theorem next_commit_index_exact_witness:
  "find_next_commit_index trio_leader trio_leader_state = Some (Some 1)
   \<and> is_quorum trio_conf (replicated_on trio_leader trio_leader_state 1)"
proof -
  have f: "find_next_commit_index trio_leader trio_leader_state = Some (Some 1)" by code_simp
  with next_commit_index_exact [OF trio_leader_wf(1,2), of trio_leader_state] trio_leader_wf(3) trio_voters show ?thesis by auto
qed

text \<open>
  C10: A lease rests on a majority. When the leader moves the start of its lease forward, a
  quorum of the voters, itself included, has answered requests that were sent at that time or
  later.
\<close>

theorem lease_start_has_quorum:
  assumes "distinct (map fst (ld_followers l))" "cm_id s \<notin> fst ` set (ld_followers l)" "cm_id s \<in> voters (cm_conf s)"
    and "conf_wf (cm_conf s)" "find_next_lease_start s l now = Some x" "ld_lease_start l < x"
  shows "is_quorum (cm_conf s) (heard_since s l x)"
  by (rule lease_heard [OF assms])

theorem lease_start_has_quorum_witness:
  "find_next_lease_start trio_leader trio_leader_state 9 = Some 5 \<and> is_quorum trio_conf (heard_since trio_leader trio_leader_state 5)"
proof -
  have f: "find_next_lease_start trio_leader trio_leader_state 9 = Some 5" by code_simp
  have "cm_id trio_leader = 1" by (simp add: trio_leader_def trio_follower_def)
  with lease_start_has_quorum [OF _ _ _ trio_leader_wf(2) f] trio_leader_wf(3) trio_voters f show ?thesis
    by (simp add: trio_leader_state_def)
qed

end
