(* ===== verification/Record_Log.thy ===== *)
theory Record_Log
  imports Crc
begin

text \<open>
  The record log of \<open>pkg/sstable/src/record_log.rs\<close>, the file format under the Raft log. A
  record is written as one or more fragments with a checksum each; a fragment never crosses
  the boundary of a block, and the end of a block that cannot hold a header is filled with
  zeros. \<open>RecordWriter\<close> appends records, \<open>RecordReader\<close> reads them back one by one, tells a
  file that ends in the middle of a record from a corrupt one, and can be turned into a writer
  that continues after the last complete record.

  A file is the list of its bytes. Reads and writes of the operating system succeed.
\<close>

section \<open>Fragments\<close>

definition BLOCK_SIZE :: nat where
  "BLOCK_SIZE = 32 * 1024"

definition FRAGMENT_HEADER_SIZE :: nat where
  "FRAGMENT_HEADER_SIZE = 7"

datatype fragment_type = ZERO | FULL | FIRST | MIDDLE | LAST

definition fragment_value :: "fragment_type \<Rightarrow> byte" where
  "fragment_value typ = (case typ of ZERO \<Rightarrow> 0 | FULL \<Rightarrow> 1 | FIRST \<Rightarrow> 2 | MIDDLE \<Rightarrow> 3 | LAST \<Rightarrow> 4)"

definition fragment_from_value :: "byte \<Rightarrow> fragment_type option" where
  "fragment_from_value v =
     (if v = 0 then Some ZERO else if v = 1 then Some FULL else if v = 2 then Some FIRST
      else if v = 3 then Some MIDDLE else if v = 4 then Some LAST else None)"

text \<open>The integers of the header, in little endian order.\<close>

definition u32_to_le_bytes :: "32 word \<Rightarrow> byte list" where
  "u32_to_le_bytes w = map (\<lambda>i. ucast (drop_bit (8 * i) w)) [0, 1, 2, 3]"

definition u16_to_le_bytes :: "16 word \<Rightarrow> byte list" where
  "u16_to_le_bytes w = map (\<lambda>i. ucast (drop_bit (8 * i) w)) [0, 1]"

definition u32_from_le_bytes :: "byte list \<Rightarrow> 32 word" where
  "u32_from_le_bytes bs = foldr (\<lambda>b acc. ucast b OR push_bit 8 acc) bs 0"

definition u16_from_le_bytes :: "byte list \<Rightarrow> 16 word" where
  "u16_from_le_bytes bs = foldr (\<lambda>b acc. ucast b OR push_bit 8 acc) bs 0"

datatype record_read_error = EndOfFile | Corrupt | Dropped | Incomplete

definition check_zero_padding :: "byte list \<Rightarrow> bool" where
  "check_zero_padding data \<longleftrightarrow> (\<forall>b \<in> set data. b = 0)"

text \<open>A parsed fragment is its type, its data and the offset after it.\<close>

definition parse_fragment :: "byte list \<Rightarrow> nat \<Rightarrow> record_read_error + fragment_type \<times> byte list \<times> nat" where
  "parse_fragment input remaining_block_length =
     (if remaining_block_length < FRAGMENT_HEADER_SIZE then Inl Corrupt
      else if length input = 0 then Inl EndOfFile
      else if length input < FRAGMENT_HEADER_SIZE then Inl Incomplete
      else
        let checksum = u32_from_le_bytes (take 4 input);
            len = unat (u16_from_le_bytes (take 2 (drop 4 input)));
            data_end = FRAGMENT_HEADER_SIZE + len
        in case fragment_from_value (input ! 6) of
             None \<Rightarrow> Inl Corrupt
           | Some typ \<Rightarrow>
               if typ = ZERO then
                 if remaining_block_length \<noteq> length input then Inl Incomplete
                 else if check_zero_padding input then Inr (typ, [], length input)
                 else Inl Corrupt
               else if remaining_block_length < data_end then Inl Corrupt
               else if length input < data_end then Inl Incomplete
               else if checksum \<noteq> crc32c_masked (crc32c_update_lut crc32c_new (drop 6 (take data_end input)))
               then Inl Corrupt
               else Inr (typ, drop FRAGMENT_HEADER_SIZE (take data_end input), data_end))"

section \<open>The writer\<close>

record record_writer =
  rw_file :: "byte list"
  rw_extent :: nat

definition record_writer_new :: record_writer where
  "record_writer_new = \<lparr>rw_file = [], rw_extent = 0\<rparr>"

definition write_all :: "byte list \<Rightarrow> record_writer \<Rightarrow> record_writer" where
  "write_all bytes w = w\<lparr>rw_file := rw_file w @ bytes, rw_extent := rw_extent w + length bytes\<rparr>"

definition fragment_bytes :: "fragment_type \<Rightarrow> byte list \<Rightarrow> byte list" where
  "fragment_bytes typ data =
     u32_to_le_bytes (crc32c_masked (crc32c_update_lut (crc32c_update_lut crc32c_new [fragment_value typ]) data))
     @ u16_to_le_bytes (word_of_nat (length data)) @ [fragment_value typ] @ data"

definition fragment_type_for :: "bool \<Rightarrow> nat \<Rightarrow> nat \<Rightarrow> nat \<Rightarrow> fragment_type" where
  "fragment_type_for first_record pos n len =
     (if first_record then if n = len then FULL else FIRST
      else if pos + n = len then LAST else MIDDLE)"

definition skip_block_end :: "record_writer \<Rightarrow> record_writer" where
  "skip_block_end w =
     (let rem = BLOCK_SIZE - rw_extent w mod BLOCK_SIZE
      in if rem < FRAGMENT_HEADER_SIZE then write_all (replicate rem 0) w else w)"

lemma length_fragment_bytes [simp]: "length (fragment_bytes typ data) = FRAGMENT_HEADER_SIZE + length data"
  by (simp add: fragment_bytes_def u32_to_le_bytes_def u16_to_le_bytes_def FRAGMENT_HEADER_SIZE_def)

text \<open>Every round writes data, ends the record, or fills the block with a header that has no data.\<close>

lemma append_loop_progress:
  assumes "FRAGMENT_HEADER_SIZE \<le> BLOCK_SIZE - extent mod BLOCK_SIZE"
    and "rem = BLOCK_SIZE - extent mod BLOCK_SIZE - FRAGMENT_HEADER_SIZE" "pos \<le> len" "n = min rem (len - pos)"
    and "pos < len \<or> first_record"
  shows "2 * (len - (pos + n)) + (if (extent + (FRAGMENT_HEADER_SIZE + n)) mod BLOCK_SIZE = 0 then 0 else 1)
    < 2 * (len - pos) + (if extent mod BLOCK_SIZE = 0 then 0 else 1) + (if first_record then 2 else (0 :: nat))"
proof (cases "n = 0 \<and> \<not> first_record")
  case True
  then have "BLOCK_SIZE - extent mod BLOCK_SIZE = FRAGMENT_HEADER_SIZE" using assms by (auto simp: min_def split: if_splits)
  then have e: "extent mod BLOCK_SIZE = BLOCK_SIZE - FRAGMENT_HEADER_SIZE" by (simp add: FRAGMENT_HEADER_SIZE_def)
  then have "(extent + FRAGMENT_HEADER_SIZE) mod BLOCK_SIZE = 0"
    by (metis FRAGMENT_HEADER_SIZE_def assms(1) diff_le_self le_add_diff_inverse2 mod_add_left_eq mod_self order.trans)
  with True e show ?thesis by (simp add: FRAGMENT_HEADER_SIZE_def BLOCK_SIZE_def)
next
  case False
  then show ?thesis using assms(3,4) by auto
qed

function append_loop :: "byte list \<Rightarrow> nat \<Rightarrow> bool \<Rightarrow> record_writer \<Rightarrow> record_writer option" where
  "append_loop data pos first_record w =
     (if pos < length data \<or> first_record then do {
        rem \<leftarrow> sub_u64 (BLOCK_SIZE - rw_extent w mod BLOCK_SIZE) FRAGMENT_HEADER_SIZE;
        left \<leftarrow> sub_u64 (length data) pos;
        let n = min rem left;
        append_loop data (pos + n) False
          (write_all (fragment_bytes (fragment_type_for first_record pos n (length data)) (take n (drop pos data))) w)
      } else Some w)"
  by pat_completeness auto
termination
proof (relation "measure (\<lambda>(data, pos, first_record, w). 2 * (length data - pos)
    + (if rw_extent w mod BLOCK_SIZE = 0 then 0 else 1) + (if first_record then 2 else 0))", goal_cases)
  case (2 data pos first_record w rem left n)
  then show ?case
    using append_loop_progress [of "rw_extent w" rem pos "length data" n first_record] by (simp add: write_all_def)
qed simp

declare append_loop.simps [simp del]

definition rw_append :: "byte list \<Rightarrow> record_writer \<Rightarrow> record_writer option" where
  "rw_append data w = append_loop data 0 True (skip_block_end w)"

definition rw_current_size :: "record_writer \<Rightarrow> nat" where
  "rw_current_size w = rw_extent w"

section \<open>The reader\<close>

datatype record_recovery_mode = Strict | AllowIncomplete

record record_buffer =
  rb_started :: bool
  rb_ended :: bool
  rb_start_file_offset :: nat
  rb_data :: "byte list"

record record_reader =
  rd_file :: "byte list"
  rd_recovery_mode :: record_recovery_mode
  rd_file_offset :: nat
  rd_block :: "byte list"
  rd_block_offset :: nat
  rd_block_corrupt :: bool
  rd_output_buffer :: "record_buffer option"

definition record_reader_open :: "byte list \<Rightarrow> record_reader" where
  "record_reader_open file = \<lparr>rd_file = file, rd_recovery_mode = AllowIncomplete, rd_file_offset = 0, rd_block = [],
     rd_block_offset = 0, rd_block_corrupt = False, rd_output_buffer = None\<rparr>"

definition set_recovery_mode :: "record_recovery_mode \<Rightarrow> record_reader \<Rightarrow> record_reader" where
  "set_recovery_mode mode r = r\<lparr>rd_recovery_mode := mode\<rparr>"

text \<open>Reads of the file repeat until the block is full or the file ends.\<close>

definition read_block_remainder :: "record_reader \<Rightarrow> record_reader" where
  "read_block_remainder r =
     (let valid_length = length (rd_block r)
      in if valid_length = BLOCK_SIZE then r
         else r\<lparr>rd_block := rd_block r @ take (BLOCK_SIZE - valid_length) (drop (rd_file_offset r + valid_length) (rd_file r))\<rparr>)"

definition read_block :: "nat \<Rightarrow> record_reader \<Rightarrow> record_reader" where
  "read_block off r = read_block_remainder (r\<lparr>rd_file_offset := off, rd_block := [], rd_block_offset := 0\<rparr>)"

text \<open>\<open>&block[block_offset..]\<close>, which panics beyond the end.\<close>

definition block_rest :: "record_reader \<Rightarrow> byte list option" where
  "block_rest r = (if rd_block_offset r \<le> length (rd_block r) then Some (drop (rd_block_offset r) (rd_block r)) else None)"

definition parse_next :: "record_reader \<Rightarrow> (record_reader \<times> (record_read_error + fragment_type \<times> byte list)) option" where
  "parse_next r = do {
     remaining_block_length \<leftarrow> sub_u64 BLOCK_SIZE (rd_block_offset r);
     input \<leftarrow> block_rest r;
     Some (case parse_fragment input remaining_block_length of
         Inr (typ, data, fragment_size) \<Rightarrow> (r\<lparr>rd_block_offset := rd_block_offset r + fragment_size\<rparr>, Inr (typ, data))
       | Inl e \<Rightarrow> (if e = Corrupt then r\<lparr>rd_block_corrupt := True\<rparr> else r, Inl e))
   }"

definition skip_corrupt_block :: "record_reader \<Rightarrow> record_reader" where
  "skip_corrupt_block r =
     (if rd_block_corrupt r
      then r\<lparr>rd_file_offset := rd_file_offset r + BLOCK_SIZE, rd_block_offset := 0, rd_block := []\<rparr>
      else r)"

definition read_fragment :: "record_reader \<Rightarrow> (record_reader \<times> (record_read_error + fragment_type \<times> byte list)) option" where
  "read_fragment r0 = do {
     let r = read_block_remainder (skip_corrupt_block r0);
     rem \<leftarrow> sub_u64 BLOCK_SIZE (rd_block_offset r);
     if rem < FRAGMENT_HEADER_SIZE then do {
       remaining \<leftarrow> block_rest r;
       if \<not> check_zero_padding remaining then Some (r\<lparr>rd_block_corrupt := True\<rparr>, Inl Corrupt)
       else if length (rd_block r) = BLOCK_SIZE then parse_next (read_block (rd_file_offset r + BLOCK_SIZE) r)
       else Some (r, Inl EndOfFile)
     } else parse_next r
   }"

text \<open>What one fragment does to the record being assembled.\<close>

definition add_fragment :: "fragment_type \<Rightarrow> byte list \<Rightarrow> record_buffer \<Rightarrow> record_buffer \<times> record_read_error option" where
  "add_fragment typ data out = (case typ of
      ZERO \<Rightarrow> (out, if rb_started out then Some Corrupt else None)
    | FULL \<Rightarrow> (out\<lparr>rb_data := rb_data out @ data, rb_started := True, rb_ended := True\<rparr>, if rb_started out then Some Dropped else None)
    | FIRST \<Rightarrow> (out\<lparr>rb_data := rb_data out @ data, rb_started := True\<rparr>, if rb_started out then Some Dropped else None)
    | MIDDLE \<Rightarrow> if \<not> rb_started out then (out, Some Corrupt) else (out\<lparr>rb_data := rb_data out @ data\<rparr>, None)
    | LAST \<Rightarrow> if \<not> rb_started out then (out, Some Corrupt)
              else (out\<lparr>rb_data := rb_data out @ data, rb_ended := True\<rparr>, None))"

text \<open>The bytes that are still to be read; every fragment uses some of them.\<close>

definition bytes_left :: "record_reader \<Rightarrow> nat" where
  "bytes_left r =
     (if rd_block_corrupt r then length (rd_file r) - rd_file_offset r
      else length (rd_file r) - (rd_file_offset r + length (rd_block r)) + (length (rd_block r) - rd_block_offset r))"

lemma bytes_left_remainder:
  "\<not> rd_block_corrupt r \<Longrightarrow> bytes_left (read_block_remainder r) \<le> bytes_left r"
  by (auto simp: bytes_left_def read_block_remainder_def Let_def min_def)

lemma read_block_remainder_sel [simp]:
  "rd_file (read_block_remainder r) = rd_file r" "rd_file_offset (read_block_remainder r) = rd_file_offset r"
  "rd_block_offset (read_block_remainder r) = rd_block_offset r" "rd_block_corrupt (read_block_remainder r) = rd_block_corrupt r"
  "rd_output_buffer (read_block_remainder r) = rd_output_buffer r" "rd_recovery_mode (read_block_remainder r) = rd_recovery_mode r"
  by (simp_all add: read_block_remainder_def Let_def)

lemma parse_fragment_size:
  "parse_fragment input n = Inr (typ, data, k) \<Longrightarrow> 0 < k \<and> k \<le> length input \<and> k \<le> n"
  by (auto simp: parse_fragment_def Let_def FRAGMENT_HEADER_SIZE_def split: if_splits option.splits)

lemma parse_next_Inr:
  assumes "parse_next r = Some (r', Inr f)"
  shows "\<exists>k. 0 < k \<and> k \<le> length (rd_block r) - rd_block_offset r \<and> r' = r\<lparr>rd_block_offset := rd_block_offset r + k\<rparr>"
proof -
  let ?p = "parse_fragment (drop (rd_block_offset r) (rd_block r)) (BLOCK_SIZE - rd_block_offset r)"
  from assms obtain ty data k where "?p = Inr (ty, data, k)" "r' = r\<lparr>rd_block_offset := rd_block_offset r + k\<rparr>"
    by (cases ?p) (auto simp: parse_next_def block_rest_def sub_u64_def split: if_splits prod.splits)
  then show ?thesis using parse_fragment_size by (intro exI [of _ k]) fastforce
qed

lemma read_fragment_progress:
  assumes f: "read_fragment r = Some (r', Inr f)"
  shows "bytes_left r' < bytes_left r"
proof (cases "rd_block_corrupt r")
  case True
  let ?r = "read_block_remainder (skip_corrupt_block r)"
  from True f have "parse_next ?r = Some (r', Inr f)"
    by (auto simp: read_fragment_def skip_corrupt_block_def FRAGMENT_HEADER_SIZE_def BLOCK_SIZE_def sub_u64_def split: if_splits)
  from parse_next_Inr [OF this] obtain k where "0 < k" "k \<le> length (rd_block ?r)" and r': "r' = ?r\<lparr>rd_block_offset := rd_block_offset ?r + k\<rparr>"
    by auto
  then have "rd_file_offset r + BLOCK_SIZE < length (rd_file r)"
    using True by (auto simp: skip_corrupt_block_def read_block_remainder_def Let_def split: if_splits)
  then show ?thesis using True by (simp add: r' bytes_left_def skip_corrupt_block_def BLOCK_SIZE_def)
next
  case False
  let ?r = "read_block_remainder r"
  have skip: "skip_corrupt_block r = r" using False by (simp add: skip_corrupt_block_def)
  from f have "\<exists>q. parse_next q = Some (r', Inr f) \<and> bytes_left q \<le> bytes_left ?r \<and> \<not> rd_block_corrupt q"
  proof (cases "BLOCK_SIZE - rd_block_offset r < FRAGMENT_HEADER_SIZE")
    case True
    with f have len: "length (rd_block ?r) = BLOCK_SIZE" and
      q: "parse_next (read_block (rd_file_offset r + BLOCK_SIZE) ?r) = Some (r', Inr f)"
      by (auto simp: read_fragment_def skip bind_eq_Some_conv Let_def split: if_splits)
    let ?n = "?r\<lparr>rd_file_offset := rd_file_offset r + BLOCK_SIZE, rd_block := [], rd_block_offset := 0\<rparr>"
    have "bytes_left (read_block_remainder ?n) \<le> bytes_left ?n" using False by (intro bytes_left_remainder) simp
    also have "bytes_left ?n \<le> bytes_left ?r" using len False by (simp add: bytes_left_def)
    finally show ?thesis using q False by (intro exI [of _ "read_block (rd_file_offset r + BLOCK_SIZE) ?r"]) (simp add: read_block_def)
  next
    case no: False
    with f False show ?thesis by (intro exI [of _ ?r]) (auto simp: read_fragment_def skip bind_eq_Some_conv Let_def split: if_splits)
  qed
  then obtain q where q: "parse_next q = Some (r', Inr f)" "bytes_left q \<le> bytes_left ?r" "\<not> rd_block_corrupt q" by blast
  from parse_next_Inr [OF q(1)] q(3) have "bytes_left r' < bytes_left q" by (auto simp: bytes_left_def)
  with q(2) bytes_left_remainder [OF False] show ?thesis by simp
qed

function read_inner :: "record_reader \<Rightarrow> record_buffer \<Rightarrow> (record_reader \<times> record_buffer \<times> (record_read_error + unit)) option" where
  "read_inner r out =
     (if rb_ended out then Some (r, out, Inr ())
      else case read_fragment r of
        None \<Rightarrow> None
      | Some (r1, Inl e) \<Rightarrow> Some (r1, out, Inl e)
      | Some (r1, Inr (typ, data)) \<Rightarrow>
          (case add_fragment typ data out of
             (out1, Some e) \<Rightarrow> Some (r1, out1, Inl e)
           | (out1, None) \<Rightarrow> read_inner r1 out1))"
  by pat_completeness auto
termination
  by (relation "measure (\<lambda>(r, out). bytes_left r)") (auto dest: read_fragment_progress)

declare read_inner.simps [simp del]

definition pending_buffer :: "record_reader \<Rightarrow> record_buffer" where
  "pending_buffer r = (case rd_output_buffer r of
      Some out \<Rightarrow> out
    | None \<Rightarrow> \<lparr>rb_started = False, rb_ended = False, rb_start_file_offset = rd_file_offset r + rd_block_offset r, rb_data = []\<rparr>)"

definition read_raw :: "record_reader \<Rightarrow> (record_reader \<times> (record_read_error + byte list)) option" where
  "read_raw r = do {
     (r1, out, res) \<leftarrow> read_inner (r\<lparr>rd_output_buffer := None\<rparr>) (pending_buffer r);
     Some (case res of
         Inr _ \<Rightarrow> (r1, Inr (rb_data out))
       | Inl e \<Rightarrow>
           if e = Corrupt then (r1, Inl e)
           else (r1\<lparr>rd_output_buffer := Some out\<rparr>, Inl (if e = EndOfFile \<and> rb_started out then Incomplete else e)))
   }"

definition rd_read :: "record_reader \<Rightarrow> (record_reader \<times> (record_read_error + byte list option)) option" where
  "rd_read r = do {
     (r1, res) \<leftarrow> read_raw r;
     Some (r1, case res of
         Inr v \<Rightarrow> Inr (Some v)
       | Inl EndOfFile \<Rightarrow> Inr None
       | Inl Incomplete \<Rightarrow> (case rd_recovery_mode r1 of Strict \<Rightarrow> Inl Incomplete | AllowIncomplete \<Rightarrow> Inr None)
       | Inl e \<Rightarrow> Inl e)
   }"

definition set_len :: "nat \<Rightarrow> byte list \<Rightarrow> byte list" where
  "set_len n file = take n file @ replicate (n - length file) 0"

definition into_writer :: "bool \<Rightarrow> record_reader \<Rightarrow> (string + record_writer option) option" where
  "into_writer allow_truncation r0 = do {
     (r, res) \<leftarrow> read_raw r0;
     if res \<noteq> Inl EndOfFile \<and> res \<noteq> Inl Incomplete
     then Some (Inl ''Expected the RecordReader to be at the end of the file before writing.'')
     else
       let append_offset = (case rd_output_buffer r of
               Some buf \<Rightarrow> rb_start_file_offset buf
             | None \<Rightarrow> rd_file_offset r + rd_block_offset r)
       in if \<not> allow_truncation \<and> append_offset < length (rd_file r) then Some (Inr None)
          else Some (Inr (Some \<lparr>rw_file = set_len append_offset (rd_file r), rw_extent = append_offset\<rparr>))
   }"

section \<open>Runs of the reader\<close>

text \<open>The ways a call of \<open>read_inner\<close> that returns can go, as an induction rule.\<close>

lemma read_inner_run [consumes 1, case_names ended stop reject more]:
  assumes "read_inner r out = Some (r', out', res)"
    and ended: "\<And>r out. rb_ended out \<Longrightarrow> P r out r out (Inr ())"
    and stop: "\<And>r out r1 e. \<not> rb_ended out \<Longrightarrow> read_fragment r = Some (r1, Inl e) \<Longrightarrow> P r out r1 out (Inl e)"
    and reject: "\<And>r out r1 ty data out1 e. \<not> rb_ended out \<Longrightarrow> read_fragment r = Some (r1, Inr (ty, data)) \<Longrightarrow>
      add_fragment ty data out = (out1, Some e) \<Longrightarrow> P r out r1 out1 (Inl e)"
    and more: "\<And>r out r1 ty data out1 r' out' res. \<not> rb_ended out \<Longrightarrow> read_fragment r = Some (r1, Inr (ty, data)) \<Longrightarrow>
      add_fragment ty data out = (out1, None) \<Longrightarrow> read_inner r1 out1 = Some (r', out', res) \<Longrightarrow> P r1 out1 r' out' res \<Longrightarrow>
      P r out r' out' res"
  shows "P r out r' out' res"
  using assms(1)
proof (induction r out arbitrary: r' out' res rule: read_inner.induct)
  case (1 r out)
  show ?case
  proof (cases "rb_ended out")
    case True
    then show ?thesis using "1.prems" ended by (simp add: read_inner.simps [of r out])
  next
    case False
    then obtain r1 fr where fr: "read_fragment r = Some (r1, fr)"
      using "1.prems" by (auto simp: read_inner.simps [of r out] split: option.splits prod.splits)
    show ?thesis
    proof (cases fr)
      case (Inl e)
      then show ?thesis using "1.prems" False fr stop [OF False fr [unfolded Inl]] by (simp add: read_inner.simps [of r out])
    next
      case (Inr f)
      obtain ty data where f: "f = (ty, data)" by (cases f)
      obtain out1 eo where add: "add_fragment ty data out = (out1, eo)" by (cases "add_fragment ty data out")
      show ?thesis
      proof (cases eo)
        case None
        then have step: "read_inner r1 out1 = Some (r', out', res)"
          using "1.prems" False fr Inr f add by (simp add: read_inner.simps [of r out])
        from "1.IH" [OF False fr [unfolded Inr f] refl refl refl add [unfolded None, symmetric] refl this]
        show ?thesis by (rule more [OF False fr [unfolded Inr f] add [unfolded None] step])
      next
        case (Some e)
        then show ?thesis
          using "1.prems" reject [OF False fr [unfolded Inr f] add [unfolded Some]] False fr Inr f add
          by (simp add: read_inner.simps [of r out])
      qed
    qed
  qed
qed

lemma parse_next_frame:
  "parse_next r = Some (r', res) \<Longrightarrow> rd_file r' = rd_file r \<and> rd_output_buffer r' = rd_output_buffer r \<and> rd_recovery_mode r' = rd_recovery_mode r"
  by (cases "parse_fragment (drop (rd_block_offset r) (rd_block r)) (BLOCK_SIZE - rd_block_offset r)")
    (auto simp: parse_next_def block_rest_def sub_u64_def split: if_splits prod.splits)

lemma read_fragment_frame:
  "read_fragment r = Some (r', res) \<Longrightarrow> rd_file r' = rd_file r \<and> rd_output_buffer r' = rd_output_buffer r \<and> rd_recovery_mode r' = rd_recovery_mode r"
  by (auto simp: read_fragment_def Let_def bind_eq_Some_conv read_block_def skip_corrupt_block_def split: if_splits dest!: parse_next_frame)

lemma add_fragment_start: "add_fragment ty data out = (out1, eo) \<Longrightarrow> rb_start_file_offset out1 = rb_start_file_offset out"
  by (auto simp: add_fragment_def split: fragment_type.splits if_splits)

lemma read_inner_frame:
  "read_inner r out = Some (r', out', res) \<Longrightarrow>
   rd_file r' = rd_file r \<and> rd_output_buffer r' = rd_output_buffer r \<and> rd_recovery_mode r' = rd_recovery_mode r
   \<and> rb_start_file_offset out' = rb_start_file_offset out"
  by (induction rule: read_inner_run) (auto dest: read_fragment_frame add_fragment_start)

lemma read_inner_progress:
  "read_inner r out = Some (r', out', res) \<Longrightarrow> res = Inr () \<Longrightarrow> bytes_left r' \<le> bytes_left r \<and> (\<not> rb_ended out \<longrightarrow> bytes_left r' < bytes_left r)"
  by (induction rule: read_inner_run) (auto dest: read_fragment_progress)

lemma rd_read_progress:
  assumes "rd_read r = Some (r', Inr (Some data))"
  shows "bytes_left r' < bytes_left r + (if rd_output_buffer r = None then 0 else 1)" "rd_output_buffer r' = None"
proof -
  let ?r = "r\<lparr>rd_output_buffer := None\<rparr>"
  obtain q out1 res where q: "read_inner ?r (pending_buffer r) = Some (q, out1, res)"
    using assms by (auto simp: rd_read_def read_raw_def bind_eq_Some_conv)
  have inner: "read_inner ?r (pending_buffer r) = Some (r', out1, Inr ())"
    using assms q by (cases res) (auto simp: rd_read_def read_raw_def split: record_read_error.splits record_recovery_mode.splits if_splits)
  have out: "rd_output_buffer r = None \<Longrightarrow> \<not> rb_ended (pending_buffer r)" by (simp add: pending_buffer_def)
  show "rd_output_buffer r' = None" using read_inner_frame [OF inner] by simp
  have "bytes_left ?r = bytes_left r" by (simp add: bytes_left_def)
  with read_inner_progress [OF inner refl] out show "bytes_left r' < bytes_left r + (if rd_output_buffer r = None then 0 else 1)"
    by auto
qed

text \<open>All records up to the end of the file, in the order in which \<open>read\<close> returns them.\<close>

function read_all :: "record_reader \<Rightarrow> (record_reader \<times> (record_read_error + byte list list)) option" where
  "read_all r = (case rd_read r of
      None \<Rightarrow> None
    | Some (r1, Inl e) \<Rightarrow> Some (r1, Inl e)
    | Some (r1, Inr None) \<Rightarrow> Some (r1, Inr [])
    | Some (r1, Inr (Some data)) \<Rightarrow>
        map_option (\<lambda>(r2, res). (r2, map_sum id (\<lambda>ds. data # ds) res)) (read_all r1))"
  by pat_completeness auto
termination
  by (relation "measure (\<lambda>r. bytes_left r + (if rd_output_buffer r = None then 0 else 1))")
    (auto dest: rd_read_progress)

declare read_all.simps [simp del]

end
