(* ===== verification/Log_Writer.thy ===== *)
theory Log_Writer
  imports Record_Log
begin

text \<open>
  The writer under the record log, \<open>LogWriter\<close> of \<open>pkg/sstable/src/log_writer.rs\<close>. Callers
  append bytes and may ask for a flush; a background task decides when to sync the file, starts
  the sync without holding the lock, and records how far the file has been flushed when the
  sync has ended. Writes and flush requests can happen while a sync is in progress.

  Every operation that holds the lock is one function on the state. The times at which the
  code reads the clock and the number of bytes a write call accepts are arguments.
\<close>

section \<open>State\<close>

record log_writer_options =
  lo_write_alignment :: nat
  lo_flush_bytes_threshold :: nat
  lo_flush_timeout_threshold :: duration

definition default_writer_options :: log_writer_options where
  "default_writer_options = \<lparr>lo_write_alignment = 4096, lo_flush_bytes_threshold = 10 * 1024 * 1024,
     lo_flush_timeout_threshold = from_millis 10\<rparr>"

record log_writer =
  lw_file :: "byte list"
  lw_offset :: nat
  lw_flushed_offset :: nat
  lw_force_offset :: nat
  lw_first_pending_byte_time :: "instant option"
  lw_last_block_start_time :: "instant option"
  lw_flush_error :: bool

definition log_writer_create :: "byte list \<Rightarrow> nat \<Rightarrow> string + log_writer" where
  "log_writer_create file position =
     (if position \<noteq> length file then Inl ''Log file not seeked to end''
      else Inr \<lparr>lw_file = file, lw_offset = position, lw_flushed_offset = 0, lw_force_offset = 0,
             lw_first_pending_byte_time = None, lw_last_block_start_time = None, lw_flush_error = False\<rparr>)"

section \<open>Operations under the lock\<close>

definition max_time :: "instant option \<Rightarrow> instant option \<Rightarrow> instant option" where
  "max_time a b = (case a of None \<Rightarrow> b | Some x \<Rightarrow> (case b of None \<Rightarrow> a | Some y \<Rightarrow> Some (max x y)))"

text \<open>The first of the two conditions, on the blocks that are complete, and the second, on the last block.\<close>

definition complete_blocks_due :: "log_writer_options \<Rightarrow> log_writer \<Rightarrow> instant \<Rightarrow> bool \<times> instant option" where
  "complete_blocks_due opts s now =
     (let block_size = lo_write_alignment opts;
          start = lw_flushed_offset s div block_size * block_size;
          stop = lw_offset s div block_size * block_size
      in if stop > lw_flushed_offset s then
           (case lw_first_pending_byte_time s of
              Some time \<Rightarrow> (stop - start > lo_flush_bytes_threshold opts \<or> time + lo_flush_timeout_threshold opts \<le> now,
                             Some (time + lo_flush_timeout_threshold opts))
            | None \<Rightarrow> (stop - start > lo_flush_bytes_threshold opts, None))
         else (False, None))"

definition check_ready_to_flush :: "log_writer_options \<Rightarrow> log_writer \<Rightarrow> instant \<Rightarrow> nat option \<times> instant option" where
  "check_ready_to_flush opts s now =
     (let block_size = lo_write_alignment opts;
          stop = lw_offset s div block_size * block_size;
          (need_flush, next_time) = complete_blocks_due opts s now;
          (need_flush, stop, next_time) = (case lw_last_block_start_time s of
              Some time \<Rightarrow>
                let t = time + lo_flush_timeout_threshold opts
                in if t \<le> now then (True, lw_offset s, max_time next_time (Some t)) else (need_flush, stop, max_time next_time (Some t))
            | None \<Rightarrow> (need_flush, stop, next_time));
          need_flush = (need_flush \<or> lw_force_offset s > lw_flushed_offset s);
          stop = (if stop < lw_force_offset s then lw_offset s else stop)
      in (if need_flush then Some stop else None, next_time))"

text \<open>A write call of which the file accepts \<open>n\<close> bytes; \<open>now\<close> and \<open>later\<close> are the two readings of the clock.\<close>

definition lw_write :: "log_writer_options \<Rightarrow> byte list \<Rightarrow> nat \<Rightarrow> instant \<Rightarrow> instant \<Rightarrow> log_writer \<Rightarrow> log_writer" where
  "lw_write opts buf n now later s =
     (if n = 0 then s
      else
        let s1 = (if lw_offset s = lw_flushed_offset s then s\<lparr>lw_first_pending_byte_time := Some now\<rparr> else s);
            old_block_index = lw_offset s div lo_write_alignment opts;
            s2 = s1\<lparr>lw_file := lw_file s1 @ take n buf, lw_offset := lw_offset s + n\<rparr>;
            new_block_index = lw_offset s2 div lo_write_alignment opts
        in if old_block_index \<noteq> new_block_index \<or> lw_last_block_start_time s = None then
             s2\<lparr>lw_last_block_start_time := (if lw_offset s2 mod lo_write_alignment opts = 0 then None else Some later)\<rparr>
           else s2)"

definition lw_request_flush :: "log_writer \<Rightarrow> log_writer" where
  "lw_request_flush s = s\<lparr>lw_force_offset := lw_offset s\<rparr>"

text \<open>When \<open>flush\<close> returns after its request: \<open>Some (Inr ())\<close>, \<open>Some (Inl ())\<close> for an error, \<open>None\<close> to wait.\<close>

definition lw_flush_poll :: "nat \<Rightarrow> log_writer \<Rightarrow> (unit + unit) option" where
  "lw_flush_poll target_offset s =
     (if lw_flushed_offset s \<ge> target_offset then Some (Inr ()) else if lw_flush_error s then Some (Inl ()) else None)"

definition lw_last_flushed_offset :: "log_writer \<Rightarrow> unit + nat" where
  "lw_last_flushed_offset s = (if lw_flush_error s then Inl () else Inr (lw_flushed_offset s))"

text \<open>
  A subscriber holds the flushed offset it has last seen. A round of its \<open>wait_for_flush\<close> ends with
  the new value, or is \<open>None\<close> when it waits on.
\<close>

definition subscriber_create :: nat where
  "subscriber_create = 0"

definition subscriber_poll :: "nat \<Rightarrow> log_writer \<Rightarrow> nat option" where
  "subscriber_poll last_flushed_offset s =
     (if lw_flushed_offset s > last_flushed_offset then Some (lw_flushed_offset s)
      else if lw_flush_error s then Some last_flushed_offset else None)"

section \<open>The background task\<close>

text \<open>What the task decides in one round: to wait, or to sync up to an offset.\<close>

datatype background_action = Wait "instant option" | Sync nat

definition background_decide :: "log_writer_options \<Rightarrow> instant \<Rightarrow> log_writer \<Rightarrow> (log_writer \<times> background_action) option" where
  "background_decide opts now s = (case check_ready_to_flush opts s now of
      (None, next_flush_time) \<Rightarrow> do {
        _ \<leftarrow> rust_assert (case next_flush_time of Some time \<Rightarrow> time > now | None \<Rightarrow> True);
        Some (s, Wait next_flush_time)
      }
    | (Some next_flush_offset, _) \<Rightarrow> do {
        let s1 = (if next_flush_offset = lw_offset s then s\<lparr>lw_last_block_start_time := None\<rparr> else s);
        _ \<leftarrow> rust_assert (next_flush_offset > lw_flushed_offset s);
        Some (s1, Sync next_flush_offset)
      })"

definition background_synced :: "nat \<Rightarrow> bool \<Rightarrow> log_writer \<Rightarrow> log_writer" where
  "background_synced next_flush_offset success s =
     (if success then s\<lparr>lw_flushed_offset := next_flush_offset, lw_first_pending_byte_time := lw_last_block_start_time s\<rparr>
      else s\<lparr>lw_flush_error := True\<rparr>)"

section \<open>All interleavings\<close>

text \<open>The background task between two rounds, with a sync in progress, or ended after an error.\<close>

datatype background_task = Deciding | Syncing nat | Stopped

text \<open>
  The state, the task, and the offsets of the bytes that a completed sync has covered. A sync
  covers the bytes from the flushed offset to the offset it was started for.
\<close>

type_synonym writer_system = "log_writer \<times> background_task \<times> nat set"

inductive writer_step :: "writer_system \<Rightarrow> writer_system \<Rightarrow> bool" where
  writes: "n \<le> length buf \<Longrightarrow> writer_step (s, task, synced) (lw_write default_writer_options buf n now later s, task, synced)"
| request: "writer_step (s, task, synced) (lw_request_flush s, task, synced)"
| wait: "background_decide default_writer_options now s = Some (s', Wait time) \<Longrightarrow> writer_step (s, Deciding, synced) (s', Deciding, synced)"
| start: "background_decide default_writer_options now s = Some (s', Sync n) \<Longrightarrow> writer_step (s, Deciding, synced) (s', Syncing n, synced)"
| finish: "writer_step (s, Syncing n, synced) (background_synced n True s, Deciding, synced \<union> {lw_flushed_offset s ..< n})"
| fail: "writer_step (s, Syncing n, synced) (background_synced n False s, Stopped, synced)"

inductive writer_reachable :: "writer_system \<Rightarrow> bool" where
  init: "log_writer_create file (length file) = Inr s \<Longrightarrow> writer_reachable (s, Deciding, {})"
| step: "writer_reachable c \<Longrightarrow> writer_step c c' \<Longrightarrow> writer_reachable c'"

definition sync_target :: "background_task \<Rightarrow> log_writer \<Rightarrow> nat" where
  "sync_target task s = (case task of Syncing n \<Rightarrow> n | _ \<Rightarrow> lw_flushed_offset s)"

fun writer_inv :: "writer_system \<Rightarrow> bool" where
  "writer_inv (s, task, synced) \<longleftrightarrow> lw_offset s = length (lw_file s) \<and> lw_flushed_offset s \<le> sync_target task s \<and> sync_target task s \<le> lw_offset s
     \<and> lw_force_offset s \<le> lw_offset s \<and> (lw_last_block_start_time s \<noteq> None \<longrightarrow> sync_target task s < lw_offset s)
     \<and> {..<lw_flushed_offset s} \<subseteq> synced"

lemma check_ready_target:
  assumes "lw_force_offset s \<le> lw_offset s" "lw_last_block_start_time s \<noteq> None \<Longrightarrow> lw_flushed_offset s < lw_offset s"
    and "check_ready_to_flush opts s now = (Some n, time)"
  shows "lw_flushed_offset s < n" "n \<le> lw_offset s" "lw_flushed_offset s < lw_force_offset s \<Longrightarrow> lw_force_offset s \<le> n"
  using assms
  by (auto simp: check_ready_to_flush_def complete_blocks_due_def Let_def split: option.splits if_splits)

lemma check_ready_time:
  "check_ready_to_flush opts s now = (None, Some time) \<Longrightarrow> now < time"
  by (auto simp: check_ready_to_flush_def complete_blocks_due_def max_time_def Let_def split: option.splits if_splits)

lemma check_ready_forced:
  "lw_flushed_offset s < lw_force_offset s \<Longrightarrow> fst (check_ready_to_flush opts s now) \<noteq> None"
  by (auto simp: check_ready_to_flush_def complete_blocks_due_def Let_def split: option.splits)

lemma decide_total:
  assumes "writer_inv (s, Deciding, synced)"
  shows "background_decide opts now s \<noteq> None"
  using assms check_ready_target(1) [of s opts now] check_ready_time [of opts s now]
  by (cases "check_ready_to_flush opts s now")
    (auto simp: background_decide_def sync_target_def split: option.splits)

lemma step_writer_inv: "writer_step c c' \<Longrightarrow> writer_inv c \<Longrightarrow> writer_inv c'"
proof (induction rule: writer_step.induct)
  case (writes n buf s task synced now later)
  then show ?case
    by (cases task) (auto simp: lw_write_def sync_target_def Let_def)
next
  case (start now s s' n synced)
  then have "lw_flushed_offset s < n" "n \<le> lw_offset s"
    using check_ready_target(1,2) [of s default_writer_options now n]
    by (auto simp: background_decide_def bind_eq_Some_conv sync_target_def split: option.splits prod.splits)
  with start show ?case
    by (auto simp: background_decide_def bind_eq_Some_conv sync_target_def split: option.splits prod.splits if_splits)
next
  case (finish s n synced)
  then show ?case by (auto simp: background_synced_def sync_target_def)
qed (auto simp: lw_request_flush_def background_decide_def background_synced_def sync_target_def bind_eq_Some_conv
    split: option.splits prod.splits background_task.splits)

lemma reachable_writer_inv: "writer_reachable c \<Longrightarrow> writer_inv c"
proof (induction rule: writer_reachable.induct)
  case (init "file" s)
  then show ?case by (auto simp: log_writer_create_def sync_target_def)
qed (rule step_writer_inv)


section \<open>A sample run\<close>

text \<open>A byte is written and its sync started; meanwhile the rest of its block is written.\<close>

definition one_byte :: log_writer where
  "one_byte = \<lparr>lw_file = [7], lw_offset = 1, lw_flushed_offset = 0, lw_force_offset = 0,
     lw_first_pending_byte_time = Some 0, lw_last_block_start_time = Some 0, lw_flush_error = False\<rparr>"

definition block_written :: log_writer where
  "block_written = one_byte\<lparr>lw_file := 7 # replicate 4095 0, lw_offset := 4096, lw_last_block_start_time := None\<rparr>"

lemma one_byte_reachable: "writer_reachable (one_byte, Deciding, {})"
proof -
  let ?s = "one_byte\<lparr>lw_file := [], lw_offset := 0, lw_first_pending_byte_time := None, lw_last_block_start_time := None\<rparr>"
  have "writer_reachable (?s, Deciding, {})" by (rule writer_reachable.init [of "[]"]) (simp add: log_writer_create_def one_byte_def)
  moreover have "lw_write default_writer_options [7] 1 0 0 ?s = one_byte" by (simp add: lw_write_def one_byte_def default_writer_options_def Let_def)
  ultimately show ?thesis using writer_step.writes [of 1 "[7]" ?s Deciding "{}" 0 0] by (auto intro: writer_reachable.step)
qed

lemma one_byte_decide:
  "background_decide default_writer_options 10000000 one_byte = Some (one_byte\<lparr>lw_last_block_start_time := None\<rparr>, Sync 1)"
  by (simp add: background_decide_def check_ready_to_flush_def complete_blocks_due_def one_byte_def default_writer_options_def
      from_millis_def Let_def)

lemma block_written_reachable:
  "writer_reachable (background_synced 1 True block_written, Deciding, {0 ..< 1})"
proof -
  let ?s = "one_byte\<lparr>lw_last_block_start_time := None\<rparr>"
  have "writer_reachable (?s, Syncing 1, {})"
    by (rule writer_reachable.step [OF one_byte_reachable]) (rule writer_step.start [OF one_byte_decide])
  moreover have "lw_write default_writer_options (replicate 4095 0) 4095 0 0 ?s = block_written"
    by (simp add: lw_write_def one_byte_def block_written_def default_writer_options_def Let_def)
  ultimately have "writer_reachable (block_written, Syncing 1, {})"
    using writer_step.writes [of 4095 "replicate 4095 0" ?s "Syncing 1" "{}" 0 0] by (auto intro: writer_reachable.step)
  then have "writer_reachable (background_synced 1 True block_written, Deciding, {} \<union> {lw_flushed_offset block_written ..< 1})"
    by (rule writer_reachable.step) (rule writer_step.finish)
  then show ?thesis by (simp add: block_written_def one_byte_def)
qed

section \<open>Theorems\<close>

text \<open>
  C8: What the writer reports as flushed has been synced. Whatever writes, flush requests and
  rounds of the background task interleave, every byte below the flushed offset has been
  covered by a completed sync, a call of \<open>flush\<close> that returns without an error has all of its
  bytes synced, and no assertion of the background task fails.
\<close>

theorem flushed_bytes_are_synced:
  assumes "writer_reachable (s, task, synced)"
  shows "{..<lw_flushed_offset s} \<subseteq> synced \<and> lw_flushed_offset s \<le> length (lw_file s)
    \<and> (lw_flush_poll target_offset s = Some (Inr ()) \<longrightarrow> {..<target_offset} \<subseteq> synced)
    \<and> (task = Deciding \<longrightarrow> background_decide default_writer_options now s \<noteq> None)"
proof -
  have inv: "writer_inv (s, task, synced)" by (rule reachable_writer_inv [OF assms])
  then have "{..<target_offset} \<subseteq> synced" if "lw_flush_poll target_offset s = Some (Inr ())"
    using that by (auto simp: lw_flush_poll_def split: if_splits)
  then show ?thesis using inv decide_total [of s synced default_writer_options now] by auto
qed

theorem flushed_bytes_are_synced_witness:
  "writer_reachable (background_synced 1 True block_written, Deciding, {0 ..< 1})
   \<and> {..<lw_flushed_offset (background_synced 1 True block_written)} \<subseteq> {0 ..< 1}
   \<and> background_decide default_writer_options 0 (background_synced 1 True block_written) \<noteq> None"
  using flushed_bytes_are_synced [OF block_written_reachable, of 0 0] block_written_reachable by blast

text \<open>
  C15: A requested flush is the next thing done. In every reachable state in which a requested
  flush is outstanding and no sync is in progress, the background task starts a sync that
  covers all bytes of the request, so the caller of \<open>flush\<close> returns when this sync succeeds.
\<close>

theorem requested_flush_progresses:
  assumes "writer_reachable (s, Deciding, synced)" "lw_flushed_offset s < lw_force_offset s"
  shows "\<exists>s' n. background_decide default_writer_options now s = Some (s', Sync n)
    \<and> lw_flush_poll (lw_force_offset s) (background_synced n True s') = Some (Inr ())"
proof -
  have inv: "writer_inv (s, Deciding, synced)" by (rule reachable_writer_inv [OF assms(1)])
  obtain n time where c: "check_ready_to_flush default_writer_options s now = (Some n, time)"
    using check_ready_forced [OF assms(2), of default_writer_options now]
    by (cases "check_ready_to_flush default_writer_options s now") auto
  have "lw_flushed_offset s < n" "lw_force_offset s \<le> n"
    using check_ready_target(1,3) [OF _ _ c] inv assms(2) by (auto simp: sync_target_def)
  then show ?thesis by (auto simp: background_decide_def c background_synced_def lw_flush_poll_def)
qed

theorem requested_flush_progresses_witness:
  "writer_reachable (lw_request_flush one_byte, Deciding, {}) \<and> lw_flushed_offset (lw_request_flush one_byte) < lw_force_offset (lw_request_flush one_byte)
   \<and> (\<exists>s' n. background_decide default_writer_options 0 (lw_request_flush one_byte) = Some (s', Sync n)
        \<and> lw_flush_poll 1 (background_synced n True s') = Some (Inr ()))"
proof -
  have r: "writer_reachable (lw_request_flush one_byte, Deciding, {})"
    by (rule writer_reachable.step [OF one_byte_reachable]) (rule writer_step.request)
  have f: "lw_flushed_offset (lw_request_flush one_byte) < lw_force_offset (lw_request_flush one_byte)" "lw_force_offset (lw_request_flush one_byte) = 1"
    by (simp_all add: lw_request_flush_def one_byte_def)
  show ?thesis using requested_flush_progresses [OF r f(1), of 0] r f by simp
qed


end
