(* ===== verification/Record_Roundtrip.thy ===== *)
theory Record_Roundtrip
  imports Record_Log
begin

text \<open>
  Correctness of the record log: what the writer appends the reader reads back, and a file
  that was cut off at any byte, as by a crash, gives the records that were written completely
  and a writer that continues after the last of them.
\<close>

section \<open>One fragment\<close>

lemma block_sizes [simp]: "FRAGMENT_HEADER_SIZE < BLOCK_SIZE" "0 < BLOCK_SIZE" "0 < FRAGMENT_HEADER_SIZE" "BLOCK_SIZE < 65536"
  "\<not> BLOCK_SIZE < FRAGMENT_HEADER_SIZE" "FRAGMENT_HEADER_SIZE \<le> BLOCK_SIZE"
  by (simp_all add: FRAGMENT_HEADER_SIZE_def BLOCK_SIZE_def)

lemma u32_le_bytes: "u32_from_le_bytes (u32_to_le_bytes w) = w"
proof (rule bit_eqI)
  fix n
  show "bit (u32_from_le_bytes (u32_to_le_bytes w)) n = bit w n" if "possible_bit TYPE(32 word) n"
    using that by (cases "24 \<le> n"; cases "16 \<le> n") (auto simp: u32_from_le_bytes_def u32_to_le_bytes_def bit_simps)
qed

lemma u16_le_bytes: "u16_from_le_bytes (u16_to_le_bytes w) = w"
  by (rule bit_eqI) (auto simp: u16_from_le_bytes_def u16_to_le_bytes_def bit_simps)

lemma fragment_from_to [simp]: "fragment_from_value (fragment_value ty) = Some ty"
  by (cases ty) (simp_all add: fragment_from_value_def fragment_value_def)

lemma unat_u16_of_nat: "n < 65536 \<Longrightarrow> unat (word_of_nat n :: 16 word) = n"
  by (simp add: unat_of_nat take_bit_nat_eq_self)

text \<open>A fragment that is followed by anything is parsed back, and one that is cut off is reported as such.\<close>

lemma fragment_bytes_parts:
  "take 4 (fragment_bytes ty data @ rest) = u32_to_le_bytes (crc32c_masked (crc32c_update_lut crc32c_new (fragment_value ty # data)))"
  "take 2 (drop 4 (fragment_bytes ty data @ rest)) = u16_to_le_bytes (word_of_nat (length data))"
  "(fragment_bytes ty data @ rest) ! 6 = fragment_value ty"
  "drop 6 (fragment_bytes ty data @ rest) = fragment_value ty # data @ rest"
  using crc32c_update_append [of crc32c_new "[fragment_value ty]" data]
  by (simp_all add: fragment_bytes_def u32_to_le_bytes_def u16_to_le_bytes_def)

lemma parse_fragment_bytes:
  assumes "ty \<noteq> ZERO" "FRAGMENT_HEADER_SIZE + length data \<le> n" "n \<le> BLOCK_SIZE"
  shows "parse_fragment (fragment_bytes ty data @ rest) n = Inr (ty, data, FRAGMENT_HEADER_SIZE + length data)"
proof -
  have len: "unat (word_of_nat (length data) :: 16 word) = length data"
    using assms block_sizes(4) by (intro unat_u16_of_nat) linarith
  have take_end: "take (FRAGMENT_HEADER_SIZE + length data) (fragment_bytes ty data @ rest) = fragment_bytes ty data" by simp
  have "drop FRAGMENT_HEADER_SIZE (fragment_bytes ty data) = data"
    by (simp add: fragment_bytes_def u32_to_le_bytes_def u16_to_le_bytes_def FRAGMENT_HEADER_SIZE_def)
  with assms show ?thesis
    using fragment_bytes_parts [of ty data rest] fragment_bytes_parts(4) [of ty data "[]"]
    by (simp add: parse_fragment_def len take_end u32_le_bytes u16_le_bytes Let_def del: take_append drop_append)
qed

lemma parse_fragment_short:
  assumes "ty \<noteq> ZERO" "FRAGMENT_HEADER_SIZE + length data \<le> n" "n \<le> BLOCK_SIZE" "k < FRAGMENT_HEADER_SIZE + length data"
  shows "parse_fragment (take k (fragment_bytes ty data)) n = Inl (if k = 0 then EndOfFile else Incomplete)"
proof (cases "k < FRAGMENT_HEADER_SIZE")
  case True
  then show ?thesis using assms by (simp add: parse_fragment_def)
next
  case False
  have len: "unat (word_of_nat (length data) :: 16 word) = length data"
    using assms block_sizes(4) by (intro unat_u16_of_nat) linarith
  have k: "7 \<le> k" using False by (simp add: FRAGMENT_HEADER_SIZE_def)
  have "take 2 (drop 4 (take k (fragment_bytes ty data))) = u16_to_le_bytes (word_of_nat (length data))"
    "take k (fragment_bytes ty data) ! 6 = fragment_value ty"
    using fragment_bytes_parts(2,3) [of ty data "[]"] k by (simp_all add: drop_take min_absorb1)
  with assms False show ?thesis by (simp add: parse_fragment_def len u16_le_bytes Let_def)
qed

section \<open>Positions of the reader\<close>

text \<open>
  A reader at an offset of its file: the block buffer holds what was read of the block that
  contains the offset, or of the block that ends there.
\<close>

definition reader_at :: "nat \<Rightarrow> record_reader \<Rightarrow> bool" where
  "reader_at off r \<longleftrightarrow> \<not> rd_block_corrupt r \<and> BLOCK_SIZE dvd rd_file_offset r \<and> rd_block_offset r \<le> BLOCK_SIZE
     \<and> off = rd_file_offset r + rd_block_offset r \<and> off \<le> length (rd_file r) \<and> rd_block_offset r \<le> length (rd_block r)
     \<and> (\<exists>n \<le> BLOCK_SIZE. rd_block r = take n (drop (rd_file_offset r) (rd_file r)))"

definition block_loaded :: "record_reader \<Rightarrow> bool" where
  "block_loaded r \<longleftrightarrow> rd_block r = take BLOCK_SIZE (drop (rd_file_offset r) (rd_file r))"

text \<open>The zeros before the next header.\<close>

definition padding :: "nat \<Rightarrow> nat" where
  "padding off = (let rem = BLOCK_SIZE - off mod BLOCK_SIZE in if rem < FRAGMENT_HEADER_SIZE then rem else 0)"

lemma reader_atD:
  assumes "reader_at off r"
  shows "\<not> rd_block_corrupt r" "BLOCK_SIZE dvd rd_file_offset r" "rd_block_offset r \<le> BLOCK_SIZE"
    "off = rd_file_offset r + rd_block_offset r" "off \<le> length (rd_file r)" "rd_block_offset r \<le> length (rd_block r)"
    "skip_corrupt_block r = r"
  using assms by (auto simp: reader_at_def skip_corrupt_block_def)

lemma reader_at_open: "reader_at 0 (record_reader_open file)"
  by (auto simp: reader_at_def record_reader_open_def intro: exI [of _ 0])

lemma reader_at_remainder:
  assumes at: "reader_at off r"
  shows "reader_at off (read_block_remainder r)" "block_loaded (read_block_remainder r)"
proof -
  let ?fo = "rd_file_offset r"
  from at obtain n where n: "n \<le> BLOCK_SIZE" "rd_block r = take n (drop ?fo (rd_file r))" by (auto simp: reader_at_def)
  have eq: "rd_block (read_block_remainder r) = take BLOCK_SIZE (drop ?fo (rd_file r))"
  proof (cases "n \<le> length (rd_file r) - ?fo")
    case True
    then have "length (rd_block r) = n" by (simp add: n(2))
    then have "rd_block (read_block_remainder r) = rd_block r @ take (BLOCK_SIZE - n) (drop (?fo + n) (rd_file r))"
      by (auto simp: read_block_remainder_def Let_def)
    also have "\<dots> = take n (drop ?fo (rd_file r)) @ take (BLOCK_SIZE - n) (drop n (drop ?fo (rd_file r)))"
      by (simp add: n(2) add.commute)
    also have "\<dots> = take BLOCK_SIZE (drop ?fo (rd_file r))" using n(1) by (metis le_add_diff_inverse take_add)
    finally show ?thesis .
  next
    case False
    then show ?thesis using n by (simp add: read_block_remainder_def Let_def)
  qed
  then show "block_loaded (read_block_remainder r)" by (simp add: block_loaded_def)
  have "rd_block_offset r \<le> length (rd_block (read_block_remainder r))"
    using reader_atD [OF at] eq by simp
  with eq at show "reader_at off (read_block_remainder r)" by (auto simp: reader_at_def)
qed

lemma remainder_loaded: "block_loaded r \<Longrightarrow> read_block_remainder r = r"
  by (simp add: block_loaded_def read_block_remainder_def Let_def)

lemma reader_at_next_block:
  assumes "reader_at off r" "block_loaded r" "length (rd_block r) = BLOCK_SIZE"
  shows "reader_at (rd_file_offset r + BLOCK_SIZE) (read_block (rd_file_offset r + BLOCK_SIZE) r)"
    "block_loaded (read_block (rd_file_offset r + BLOCK_SIZE) r)"
    "rd_block_offset (read_block (rd_file_offset r + BLOCK_SIZE) r) = 0"
proof -
  let ?q = "r\<lparr>rd_file_offset := rd_file_offset r + BLOCK_SIZE, rd_block := [], rd_block_offset := 0\<rparr>"
  have "rd_file_offset r + BLOCK_SIZE \<le> length (rd_file r)" 
  proof -
    have "min (length (rd_file r) - rd_file_offset r) BLOCK_SIZE = BLOCK_SIZE" using assms(2,3) by (simp add: block_loaded_def)
    then show ?thesis using block_sizes(2) by linarith
  qed
  then have "reader_at (rd_file_offset r + BLOCK_SIZE) ?q" using reader_atD [OF assms(1)] by (auto simp: reader_at_def)
  from reader_at_remainder [OF this]
  show "reader_at (rd_file_offset r + BLOCK_SIZE) (read_block (rd_file_offset r + BLOCK_SIZE) r)"
    "block_loaded (read_block (rd_file_offset r + BLOCK_SIZE) r)"
    "rd_block_offset (read_block (rd_file_offset r + BLOCK_SIZE) r) = 0"
    by (simp_all add: read_block_def)
qed

lemma reader_at_mod: "reader_at off r \<Longrightarrow> rd_block_offset r < BLOCK_SIZE \<Longrightarrow> off mod BLOCK_SIZE = rd_block_offset r"
  by (auto simp: reader_at_def)

lemma loaded_rest:
  "reader_at off r \<Longrightarrow> block_loaded r \<Longrightarrow> block_rest r = Some (take (BLOCK_SIZE - rd_block_offset r) (drop off (rd_file r)))"
  using reader_atD [of off r] by (auto simp: block_loaded_def block_rest_def drop_take add.commute)

text \<open>With a loaded block and room for a header the next fragment is parsed in place.\<close>

lemma read_fragment_loaded:
  assumes "reader_at off r" "block_loaded r" "FRAGMENT_HEADER_SIZE \<le> BLOCK_SIZE - rd_block_offset r"
  shows "read_fragment r = parse_next r"
  using assms(3) remainder_loaded [OF assms(2)] reader_atD [OF assms(1)]
  by (simp add: read_fragment_def sub_u64_def)

lemma read_fragment_after_padding:
  assumes at: "reader_at off r" and zeros: "check_zero_padding (take (padding off) (drop off (rd_file r)))"
    and len: "off + padding off \<le> length (rd_file r)"
  obtains q where "reader_at (off + padding off) q" "block_loaded q" "FRAGMENT_HEADER_SIZE \<le> BLOCK_SIZE - rd_block_offset q"
    "read_fragment r = parse_next q" "rd_file q = rd_file r"
proof -
  let ?r = "read_block_remainder r" and ?bo = "rd_block_offset r"
  note r = reader_at_remainder [OF at]
  have skip: "skip_corrupt_block r = r" by (rule reader_atD [OF at])
  show thesis
  proof (cases "FRAGMENT_HEADER_SIZE \<le> BLOCK_SIZE - ?bo")
    case True
    then have lt: "?bo < BLOCK_SIZE" using block_sizes(3) by linarith
    then have "padding off = 0" using True reader_at_mod [OF at] by (simp add: padding_def)
    moreover have "read_fragment r = parse_next ?r" using True lt skip by (simp add: read_fragment_def sub_u64_def)
    ultimately show thesis using True r that [of ?r] by simp
  next
    case False
    let ?q = "read_block (rd_file_offset r + BLOCK_SIZE) ?r"
    have off: "off = rd_file_offset r + ?bo" "?bo \<le> BLOCK_SIZE" by (rule reader_atD [OF at])+
    have pad: "off + padding off = rd_file_offset r + BLOCK_SIZE"
    proof (cases "?bo = BLOCK_SIZE")
      case True
      then have "off mod BLOCK_SIZE = 0" using reader_atD [OF at] by simp
      then show ?thesis using True off by (simp add: padding_def)
    next
      case lt: False
      then show ?thesis using False off reader_at_mod [OF at] by (simp add: padding_def)
    qed
    have full: "length (rd_block ?r) = BLOCK_SIZE" using r(2) len pad by (simp add: block_loaded_def)
    have "check_zero_padding (take (BLOCK_SIZE - ?bo) (drop off (rd_file r)))"
    proof -
      have "padding off = BLOCK_SIZE - ?bo" using pad off by linarith
      then show ?thesis using zeros by simp
    qed
    moreover have "block_rest ?r = Some (take (BLOCK_SIZE - ?bo) (drop off (rd_file r)))" using loaded_rest [OF r] by simp
    ultimately have "read_fragment r = parse_next ?q" using False full off skip by (simp add: read_fragment_def sub_u64_def)
    moreover have "rd_file ?q = rd_file r" by (simp add: read_block_def)
    ultimately show thesis
      using reader_at_next_block [OF r full] pad that [of ?q] by simp
  qed
qed

lemma read_fragment_in_padding:
  assumes at: "reader_at off r" and zeros: "check_zero_padding (drop off (rd_file r))"
    and len: "length (rd_file r) < off + padding off"
  shows "read_fragment r = Some (read_block_remainder r, Inl EndOfFile)"
proof -
  let ?r = "read_block_remainder r" and ?bo = "rd_block_offset r"
  note r = reader_at_remainder [OF at]
  have off: "off = rd_file_offset r + ?bo" "?bo \<le> BLOCK_SIZE" "off \<le> length (rd_file r)"
    by (rule reader_atD [OF at])+
  have "padding off \<noteq> 0" using len off by simp
  then have lt: "?bo < BLOCK_SIZE" using off reader_atD(2) [OF at]
    by (cases "?bo = BLOCK_SIZE") (auto simp: padding_def)
  then have pad: "padding off = BLOCK_SIZE - ?bo" "BLOCK_SIZE - ?bo < FRAGMENT_HEADER_SIZE"
    using \<open>padding off \<noteq> 0\<close> reader_at_mod [OF at] by (auto simp: padding_def Let_def split: if_splits)
  have short: "length (rd_block ?r) < BLOCK_SIZE" using r(2) len pad off by (simp add: block_loaded_def)
  have "check_zero_padding (take (BLOCK_SIZE - ?bo) (drop off (rd_file r)))"
    using zeros by (auto simp: check_zero_padding_def dest: in_set_takeD)
  then show ?thesis using loaded_rest [OF r] pad short off reader_atD(7) [OF at]
    by (simp add: read_fragment_def sub_u64_def)
qed

section \<open>One record\<close>

lemma parse_next_fragment:
  assumes at: "reader_at off q" and loaded: "block_loaded q" and room: "FRAGMENT_HEADER_SIZE \<le> BLOCK_SIZE - rd_block_offset q"
    and content: "rd_file q = pre @ fragment_bytes ty data @ rest" "length pre = off" "ty \<noteq> ZERO"
    and fits: "FRAGMENT_HEADER_SIZE + length data \<le> BLOCK_SIZE - off mod BLOCK_SIZE"
  shows "\<exists>q'. parse_next q = Some (q', Inr (ty, data)) \<and> reader_at (off + (FRAGMENT_HEADER_SIZE + length data)) q' \<and> rd_file q' = rd_file q"
proof -
  let ?bo = "rd_block_offset q" and ?n = "FRAGMENT_HEADER_SIZE + length data"
  have lt: "?bo < BLOCK_SIZE" using room block_sizes(3) by linarith
  then have bo: "off mod BLOCK_SIZE = ?bo" by (rule reader_at_mod [OF at])
  note d = reader_atD [OF at]
  let ?tail = "take (BLOCK_SIZE - ?bo - ?n) rest"
  have "take (BLOCK_SIZE - ?bo) (drop off (rd_file q)) = fragment_bytes ty data @ ?tail"
    using content fits bo by simp
  then have "block_rest q = Some (fragment_bytes ty data @ ?tail)" using loaded_rest [OF at loaded] by simp
  then have parse: "parse_next q = Some (q\<lparr>rd_block_offset := ?bo + ?n\<rparr>, Inr (ty, data))"
    using parse_fragment_bytes [of ty data "BLOCK_SIZE - ?bo" ?tail] lt fits bo content(3) by (simp add: parse_next_def sub_u64_def)
  have fits': "?bo + ?n \<le> BLOCK_SIZE" using fits lt unfolding bo by linarith
  have in_file: "off + ?n \<le> length (rd_file q)" using content(1,2) by simp
  then have "?bo + ?n \<le> length (rd_block q)" using loaded fits' d(4) by (simp add: block_loaded_def)
  then have "reader_at (off + ?n) (q\<lparr>rd_block_offset := ?bo + ?n\<rparr>)"
    using at fits' in_file unfolding reader_at_def by simp
  with parse show ?thesis by auto
qed

lemma parse_next_cut:
  assumes at: "reader_at off q" and loaded: "block_loaded q" and room: "FRAGMENT_HEADER_SIZE \<le> BLOCK_SIZE - rd_block_offset q"
    and content: "rd_file q = pre @ take k (fragment_bytes ty data)" "length pre = off" "ty \<noteq> ZERO"
    and fits: "FRAGMENT_HEADER_SIZE + length data \<le> BLOCK_SIZE - off mod BLOCK_SIZE" and k: "k < FRAGMENT_HEADER_SIZE + length data"
  shows "parse_next q = Some (q, Inl (if k = 0 then EndOfFile else Incomplete))"
proof -
  let ?bo = "rd_block_offset q"
  have lt: "?bo < BLOCK_SIZE" using room block_sizes(3) by linarith
  then have bo: "off mod BLOCK_SIZE = ?bo" by (rule reader_at_mod [OF at])
  have "take (BLOCK_SIZE - ?bo) (drop off (rd_file q)) = take k (fragment_bytes ty data)"
    using content fits k bo by (simp add: min_absorb2)
  then have "block_rest q = Some (take k (fragment_bytes ty data))" using loaded_rest [OF at loaded] by simp
  then show ?thesis
    using parse_fragment_short [of ty data "BLOCK_SIZE - ?bo" k] lt fits bo content(3) k by (simp add: parse_next_def sub_u64_def)
qed

text \<open>A reader that cannot get on until the file grows.\<close>

definition stuck :: "record_reader \<Rightarrow> record_buffer \<Rightarrow> record_read_error \<Rightarrow> bool" where
  "stuck r out e \<longleftrightarrow> (e = EndOfFile \<or> e = Incomplete) \<and> \<not> rb_ended out \<and> read_fragment r = Some (r, Inl e)"

lemma stuck_read_inner: "stuck r out e \<Longrightarrow> read_inner r out = Some (r, out, Inl e)"
  by (simp add: stuck_def read_inner.simps [of r out])

text \<open>What a reader at the end of a file makes of bytes that are appended to it, all of them or the first few.\<close>

definition reads_back :: "nat \<Rightarrow> byte list \<Rightarrow> bool \<Rightarrow> byte list \<Rightarrow> byte list \<Rightarrow> bool" where
  "reads_back off file started bytes payload \<longleftrightarrow> (\<forall>rest r out. rd_file r = file @ bytes @ rest \<longrightarrow> reader_at off r \<longrightarrow> \<not> rb_ended out \<longrightarrow> rb_started out = started \<longrightarrow>
     (\<exists>r'. read_inner r out = Some (r', out\<lparr>rb_started := True, rb_ended := True, rb_data := rb_data out @ payload\<rparr>, Inr ())
        \<and> reader_at (off + length bytes) r'))"

definition cut_short :: "nat \<Rightarrow> byte list \<Rightarrow> bool \<Rightarrow> byte list \<Rightarrow> bool" where
  "cut_short off file started bytes \<longleftrightarrow> (\<forall>k < length bytes. \<forall>r out. rd_file r = file @ take k bytes \<longrightarrow> reader_at off r \<longrightarrow> \<not> rb_ended out \<longrightarrow> rb_started out = started \<longrightarrow>
     (\<exists>r' out' e. read_inner r out = Some (r', out', Inl e) \<and> stuck r' out' e))"

lemma padding_room: "FRAGMENT_HEADER_SIZE \<le> BLOCK_SIZE - off mod BLOCK_SIZE \<Longrightarrow> padding off = 0"
  by (simp add: padding_def)

lemma check_zero_padding_simps [simp]: "check_zero_padding []" "check_zero_padding (replicate n 0)"
  by (auto simp: check_zero_padding_def)

lemma read_fragment_room:
  assumes "reader_at off r" "FRAGMENT_HEADER_SIZE \<le> BLOCK_SIZE - off mod BLOCK_SIZE"
  obtains q where "reader_at off q" "block_loaded q" "FRAGMENT_HEADER_SIZE \<le> BLOCK_SIZE - rd_block_offset q"
    "read_fragment r = parse_next q" "rd_file q = rd_file r"
  using read_fragment_after_padding [OF assms(1)] padding_room [OF assms(2)] reader_atD(5) [OF assms(1)]
  by (metis add.right_neutral check_zero_padding_simps(1) take_eq_Nil)

lemma cut_here:
  assumes "reader_at (length file) r" "FRAGMENT_HEADER_SIZE \<le> BLOCK_SIZE - length file mod BLOCK_SIZE" "rd_file r = file @ take k (fragment_bytes ty data)"
    and "k < FRAGMENT_HEADER_SIZE + length data" "ty \<noteq> ZERO" "FRAGMENT_HEADER_SIZE + length data \<le> BLOCK_SIZE - length file mod BLOCK_SIZE" "\<not> rb_ended out"
  shows "\<exists>r' e. read_inner r out = Some (r', out, Inl e) \<and> stuck r' out e"
proof -
  from read_fragment_room [OF assms(1,2)] obtain q where q: "reader_at (length file) q" "block_loaded q" "FRAGMENT_HEADER_SIZE \<le> BLOCK_SIZE - rd_block_offset q"
    "read_fragment r = parse_next q" "rd_file q = rd_file r" by blast
  let ?e = "if k = 0 then EndOfFile else Incomplete"
  from parse_next_cut [OF q(1-3), of "file" k ty data] assms q have p: "parse_next q = Some (q, Inl ?e)" by simp
  then have "stuck q out ?e" using read_fragment_loaded [OF q(1-3)] assms(7) by (simp add: stuck_def)
  moreover have "read_inner r out = Some (q, out, Inl ?e)" using p q(4) assms(7) by (simp add: read_inner.simps [of r out])
  ultimately show ?thesis by blast
qed

lemma write_all_twice: "write_all ys (write_all xs w) = write_all (xs @ ys) w"
  by (simp add: write_all_def)

lemma write_all_sel [simp]:
  "rw_file (write_all bytes w) = rw_file w @ bytes" "rw_extent (write_all bytes w) = rw_extent w + length bytes"
  by (simp_all add: write_all_def)

text \<open>The first fragment of a record and the rest, which starts in the next block.\<close>

lemma reads_back_first:
  assumes room: "FRAGMENT_HEADER_SIZE + length data \<le> BLOCK_SIZE - length file mod BLOCK_SIZE" and ty: "ty \<noteq> ZERO"
    and add: "\<And>out :: record_buffer. rb_started out = started \<Longrightarrow> \<not> rb_ended out \<Longrightarrow> add_fragment ty data out = (f out, None) \<and> \<not> rb_ended (f out) \<and> rb_started (f out)
      \<and> (f out)\<lparr>rb_started := True, rb_ended := True, rb_data := rb_data (f out) @ payload\<rparr>
        = out\<lparr>rb_started := True, rb_ended := True, rb_data := rb_data out @ data @ payload\<rparr>"
    and more: "reads_back (length file + (FRAGMENT_HEADER_SIZE + length data)) (file @ fragment_bytes ty data) True bytes payload"
      "cut_short (length file + (FRAGMENT_HEADER_SIZE + length data)) (file @ fragment_bytes ty data) True bytes"
  shows "reads_back (length file) file started (fragment_bytes ty data @ bytes) (data @ payload)"
    "cut_short (length file) file started (fragment_bytes ty data @ bytes)"
proof -
  let ?n = "FRAGMENT_HEADER_SIZE + length data"
  have header: "FRAGMENT_HEADER_SIZE \<le> BLOCK_SIZE - length file mod BLOCK_SIZE" using room by simp
  have step: "\<exists>q'. read_inner r out = read_inner q' (f out) \<and> reader_at (length file + ?n) q' \<and> rd_file q' = rd_file r"
    if "reader_at (length file) r" "rd_file r = file @ fragment_bytes ty data @ rest" "\<not> rb_ended out" "rb_started out = started" for r :: record_reader and rest and out :: record_buffer
  proof -
    from read_fragment_room [OF that(1) header] obtain q where q: "reader_at (length file) q" "block_loaded q"
      "FRAGMENT_HEADER_SIZE \<le> BLOCK_SIZE - rd_block_offset q" "read_fragment r = parse_next q" "rd_file q = rd_file r" by blast
    from parse_next_fragment [OF q(1-3) _ _ ty room] that(2) q(5) obtain q' where
      q': "parse_next q = Some (q', Inr (ty, data))" "reader_at (length file + ?n) q'" "rd_file q' = rd_file q" by auto
    with q that(3) add [OF that(4,3)] show ?thesis by (intro exI [of _ q']) (simp add: read_inner.simps [of r out])
  qed
  show "reads_back (length file) file started (fragment_bytes ty data @ bytes) (data @ payload)"
    unfolding reads_back_def
  proof (intro allI impI)
    fix rest and r :: record_reader and out :: record_buffer
    assume r: "rd_file r = file @ (fragment_bytes ty data @ bytes) @ rest" "reader_at (length file) r" "\<not> rb_ended out" "rb_started out = started"
    from step [OF r(2) _ r(3,4), of "bytes @ rest"] r(1) obtain q' where
      q: "read_inner r out = read_inner q' (f out)" "reader_at (length file + ?n) q'" "rd_file q' = rd_file r" by auto
    from more(1) q r(1) add [OF r(4,3)] obtain r' where
      "read_inner q' (f out) = Some (r', (f out)\<lparr>rb_started := True, rb_ended := True, rb_data := rb_data (f out) @ payload\<rparr>, Inr ())"
      "reader_at (length file + ?n + length bytes) r'"
      unfolding reads_back_def by (metis append.assoc)
    with q(1) add [OF r(4,3)] show "\<exists>r'. read_inner r out
        = Some (r', out\<lparr>rb_started := True, rb_ended := True, rb_data := rb_data out @ data @ payload\<rparr>, Inr ())
      \<and> reader_at (length file + length (fragment_bytes ty data @ bytes)) r'"
      by (intro exI [of _ r']) (simp add: add.assoc)
  qed
  show "cut_short (length file) file started (fragment_bytes ty data @ bytes)"
    unfolding cut_short_def
  proof (intro allI impI)
    fix k and r :: record_reader and out :: record_buffer
    assume k: "k < length (fragment_bytes ty data @ bytes)"
      and r: "rd_file r = file @ take k (fragment_bytes ty data @ bytes)" "reader_at (length file) r" "\<not> rb_ended out" "rb_started out = started"
    show "\<exists>r' out' e. read_inner r out = Some (r', out', Inl e) \<and> stuck r' out' e"
    proof (cases "k < ?n")
      case True
      then show ?thesis using cut_here [OF r(2) header _ True ty room r(3)] r(1) by auto
    next
      case False
      then have rest: "rd_file r = file @ fragment_bytes ty data @ take (k - ?n) bytes" using r(1) by simp
      from step [OF r(2) rest r(3,4)] obtain q' where
        q: "read_inner r out = read_inner q' (f out)" "reader_at (length file + ?n) q'" "rd_file q' = rd_file r" by blast
      have "k - ?n < length bytes" using k False by simp
      with more(2) q rest add [OF r(4,3)] show ?thesis unfolding cut_short_def by (metis append.assoc)
    qed
  qed
qed

lemma reads_back_last:
  assumes room: "FRAGMENT_HEADER_SIZE + length data \<le> BLOCK_SIZE - length file mod BLOCK_SIZE" and ty: "ty \<noteq> ZERO"
    and add: "\<And>out :: record_buffer. rb_started out = started \<Longrightarrow> add_fragment ty data out = (out\<lparr>rb_started := True, rb_ended := True, rb_data := rb_data out @ data\<rparr>, None)"
  shows "reads_back (length file) file started (fragment_bytes ty data) data" "cut_short (length file) file started (fragment_bytes ty data)"
proof -
  have header: "FRAGMENT_HEADER_SIZE \<le> BLOCK_SIZE - length file mod BLOCK_SIZE" using room by simp
  show "cut_short (length file) file started (fragment_bytes ty data)"
    unfolding cut_short_def using cut_here [OF _ header _ _ ty room] by fastforce
  show "reads_back (length file) file started (fragment_bytes ty data) data"
    unfolding reads_back_def
  proof (intro allI impI)
    fix rest and r :: record_reader and out :: record_buffer
    assume r: "rd_file r = file @ fragment_bytes ty data @ rest" "reader_at (length file) r" "\<not> rb_ended out" "rb_started out = started"
    from read_fragment_room [OF r(2) header] obtain q where q: "reader_at (length file) q" "block_loaded q"
      "FRAGMENT_HEADER_SIZE \<le> BLOCK_SIZE - rd_block_offset q" "read_fragment r = parse_next q" "rd_file q = rd_file r" by blast
    from parse_next_fragment [OF q(1-3) _ _ ty room] r(1) q(5) obtain q' where
      q': "parse_next q = Some (q', Inr (ty, data))" "reader_at (length file + (FRAGMENT_HEADER_SIZE + length data)) q'" by auto
    let ?out = "out\<lparr>rb_started := True, rb_ended := True, rb_data := rb_data out @ data\<rparr>"
    have "read_inner q' ?out = Some (q', ?out, Inr ())" by (simp add: read_inner.simps [of q' ?out])
    then show "\<exists>r'. read_inner r out = Some (r', ?out, Inr ()) \<and> reader_at (length file + length (fragment_bytes ty data)) r'"
      using q q' r(3) add [OF r(4)] by (intro exI [of _ q']) (simp add: read_inner.simps [of r out])
  qed
qed

lemma block_end_aligned: "(off + (BLOCK_SIZE - off mod BLOCK_SIZE)) mod BLOCK_SIZE = 0"
  by (metis add.commute block_sizes(2) le_add_diff_inverse2 mod_add_right_eq mod_less_divisor mod_self order.strict_implies_order)

lemma fragment_bytes_nonempty [simp]: "fragment_bytes ty data \<noteq> []"
  by (simp add: fragment_bytes_def)

text \<open>A round of the writer that ends the record, and one that fills the block.\<close>

lemma append_loop_last:
  assumes "pos \<le> length data" "first_record \<longrightarrow> pos = 0" "pos < length data \<or> first_record"
    and room: "BLOCK_SIZE - rw_extent w mod BLOCK_SIZE = FRAGMENT_HEADER_SIZE + rem" "length data - pos \<le> rem"
  shows "append_loop data pos first_record w
    = Some (write_all (fragment_bytes (if first_record then FULL else LAST) (drop pos data)) w)"
proof -
  have "fragment_type_for first_record pos (length data - pos) (length data) = (if first_record then FULL else LAST)"
    using assms(1,2) by (simp add: fragment_type_for_def)
  moreover have "append_loop data (length data) False v = Some v" for v by (simp add: append_loop.simps [of data "length data"])
  ultimately show ?thesis
    using assms by (simp add: append_loop.simps [of data pos] sub_u64_def min_absorb2 Let_def)
qed

lemma append_loop_more:
  assumes "first_record \<longrightarrow> pos = 0" "BLOCK_SIZE - rw_extent w mod BLOCK_SIZE = FRAGMENT_HEADER_SIZE + n" "pos + n < length data"
  shows "append_loop data pos first_record w
    = append_loop data (pos + n) False (write_all (fragment_bytes (if first_record then FIRST else MIDDLE) (take n (drop pos data))) w)"
proof -
  have "fragment_type_for first_record pos n (length data) = (if first_record then FIRST else MIDDLE)"
    using assms(1,3) by (auto simp: fragment_type_for_def)
  then show ?thesis using assms(2,3) by (simp add: append_loop.simps [of data pos] sub_u64_def min_absorb1 Let_def)
qed

lemma append_loop_reads:
  assumes "rw_extent w = length (rw_file w)" "FRAGMENT_HEADER_SIZE \<le> BLOCK_SIZE - rw_extent w mod BLOCK_SIZE"
    and "pos \<le> length data" "first_record \<longrightarrow> pos = 0" "pos < length data \<or> first_record"
  shows "\<exists>bytes. append_loop data pos first_record w = Some (write_all bytes w) \<and> bytes \<noteq> []
    \<and> reads_back (rw_extent w) (rw_file w) (\<not> first_record) bytes (drop pos data) \<and> cut_short (rw_extent w) (rw_file w) (\<not> first_record) bytes"
  using assms
proof (induction "2 * (length data - pos) + (if first_record then 1 else 0) + (if rw_extent w mod BLOCK_SIZE = 0 then 0 else 1)"
    arbitrary: pos first_record w rule: less_induct)
  case less
  obtain rem where rem: "BLOCK_SIZE - rw_extent w mod BLOCK_SIZE = FRAGMENT_HEADER_SIZE + rem"
    using less.prems(2) by (metis le_add_diff_inverse)
  show ?case
  proof (cases "length data - pos \<le> rem")
    case True
    let ?ty = "if first_record then FULL else LAST"
    have add: "add_fragment ?ty d out = (out\<lparr>rb_started := True, rb_ended := True, rb_data := rb_data out @ d\<rparr>, None)"
      if "rb_started out = (\<not> first_record)" for d and out :: record_buffer
      using that by (auto simp: add_fragment_def)
    have room: "FRAGMENT_HEADER_SIZE + length (drop pos data) \<le> BLOCK_SIZE - length (rw_file w) mod BLOCK_SIZE"
      using True rem less.prems(1) by simp
    have "?ty \<noteq> ZERO" by simp
    note rb = reads_back_last [OF room this add]
    with append_loop_last [OF less.prems(3-5) rem True] less.prems(1) show ?thesis by auto
  next
    case False
    let ?ty = "if first_record then FIRST else MIDDLE" and ?slice = "take rem (drop pos data)"
    let ?w = "write_all (fragment_bytes ?ty ?slice) w"
    have more: "pos + rem < length data" and slice: "length ?slice = rem" using False by simp_all
    have "rw_extent ?w = rw_extent w + (BLOCK_SIZE - rw_extent w mod BLOCK_SIZE)" by (simp only: write_all_sel length_fragment_bytes slice rem)
    then have ext: "rw_extent ?w mod BLOCK_SIZE = 0" by (simp only: block_end_aligned)
    have whole: "rw_extent ?w = length (rw_file ?w)" using less.prems(1) by simp
    have "rem = 0 \<Longrightarrow> rw_extent w mod BLOCK_SIZE \<noteq> 0" using rem block_sizes(1) by linarith
    then have dec: "2 * (length data - (pos + rem)) + (if False then 1 else 0) + (if rw_extent ?w mod BLOCK_SIZE = 0 then 0 else 1)
        < 2 * (length data - pos) + (if first_record then 1 else 0) + (if rw_extent w mod BLOCK_SIZE = 0 then 0 else 1)"
      using more unfolding ext by (cases "rem = 0") auto
    obtain bytes where bytes: "append_loop data (pos + rem) False ?w = Some (write_all bytes ?w)"
      "reads_back (rw_extent ?w) (rw_file ?w) True bytes (drop (pos + rem) data)" "cut_short (rw_extent ?w) (rw_file ?w) True bytes"
      using less.hyps [OF dec whole] more ext by auto
    let ?f = "\<lambda>out :: record_buffer. out\<lparr>rb_started := True, rb_data := rb_data out @ ?slice\<rparr>"
    have add: "add_fragment ?ty ?slice out = (?f out, None) \<and> \<not> rb_ended (?f out) \<and> rb_started (?f out)
      \<and> (?f out)\<lparr>rb_started := True, rb_ended := True, rb_data := rb_data (?f out) @ payload\<rparr>
        = out\<lparr>rb_started := True, rb_ended := True, rb_data := rb_data out @ ?slice @ payload\<rparr>"
      if "rb_started out = (\<not> first_record)" "\<not> rb_ended out" for out :: record_buffer and payload
      using that by (auto simp: add_fragment_def)
    have room: "FRAGMENT_HEADER_SIZE + length ?slice \<le> BLOCK_SIZE - length (rw_file w) mod BLOCK_SIZE"
      using rem less.prems(1) unfolding slice by simp
    have ty: "?ty \<noteq> ZERO" by simp
    have rest: "?slice @ drop (pos + rem) data = drop pos data" by (metis append_take_drop_id drop_drop add.commute)
    have cont: "reads_back (length (rw_file w) + (FRAGMENT_HEADER_SIZE + length ?slice)) (rw_file w @ fragment_bytes ?ty ?slice) True bytes (drop (pos + rem) data)"
      "cut_short (length (rw_file w) + (FRAGMENT_HEADER_SIZE + length ?slice)) (rw_file w @ fragment_bytes ?ty ?slice) True bytes"
      using bytes(2,3) less.prems(1) by (simp_all only: write_all_sel length_fragment_bytes)
    note rb = reads_back_first [OF room ty add cont, unfolded rest]
    have "append_loop data pos first_record w = Some (write_all (fragment_bytes ?ty ?slice @ bytes) w)"
      using append_loop_more [OF less.prems(4) rem more] bytes(1) by (simp only: write_all_twice)
    then show ?thesis using rb unfolding less.prems(1) by (intro exI [of _ "fragment_bytes ?ty ?slice @ bytes"] conjI) simp_all
  qed
qed

section \<open>Records\<close>

lemma skip_block_end_padding: "skip_block_end w = write_all (replicate (padding (rw_extent w)) 0) w"
  by (simp add: skip_block_end_def padding_def Let_def write_all_def)

lemma padding_room_after: "FRAGMENT_HEADER_SIZE \<le> BLOCK_SIZE - (off + padding off) mod BLOCK_SIZE"
proof (cases "BLOCK_SIZE - off mod BLOCK_SIZE < FRAGMENT_HEADER_SIZE")
  case True
  then have "(off + padding off) mod BLOCK_SIZE = 0" using block_end_aligned [of off] by (simp add: padding_def)
  then show ?thesis by simp
next
  case False
  then show ?thesis by (simp add: padding_def)
qed

lemma read_inner_same: "\<not> rb_ended out \<Longrightarrow> read_fragment r = read_fragment q \<Longrightarrow> read_inner r out = read_inner q out"
  by (simp add: read_inner.simps [of r out] read_inner.simps [of q out])

lemma read_inner_after_padding:
  assumes at: "reader_at off r" and content: "rd_file r = file @ replicate (padding off) 0 @ rest" "length file = off" and out: "\<not> rb_ended out"
  obtains q where "reader_at (off + padding off) q" "read_inner r out = read_inner q out" "rd_file q = rd_file r"
proof -
  have "check_zero_padding (take (padding off) (drop off (rd_file r)))" "off + padding off \<le> length (rd_file r)"
    using content by simp_all
  from read_fragment_after_padding [OF at this] obtain q where q: "reader_at (off + padding off) q" "block_loaded q"
    "FRAGMENT_HEADER_SIZE \<le> BLOCK_SIZE - rd_block_offset q" "read_fragment r = parse_next q" "rd_file q = rd_file r" by blast
  have "read_inner r out = read_inner q out" by (rule read_inner_same [OF out]) (simp add: q(4) read_fragment_loaded [OF q(1-3)])
  with q show thesis by (intro that)
qed

lemma stuck_in_padding:
  assumes at: "reader_at off r" and content: "rd_file r = file @ replicate k 0" "length file = off" "k < padding off" and out: "\<not> rb_ended out"
  shows "\<exists>r' e. read_inner r out = Some (r', out, Inl e) \<and> stuck r' out e"
proof -
  let ?r = "read_block_remainder r"
  have z: "check_zero_padding (drop off (rd_file r))" "length (rd_file r) < off + padding off" using content by simp_all
  note r = reader_at_remainder [OF at]
  have "read_fragment r = Some (?r, Inl EndOfFile)" by (rule read_fragment_in_padding [OF at z])
  moreover have "read_fragment ?r = Some (?r, Inl EndOfFile)"
    using read_fragment_in_padding [OF r(1)] z remainder_loaded [OF r(2)] by simp
  ultimately show ?thesis using out by (simp add: stuck_def read_inner.simps [of r out])
qed

lemma rw_append_reads:
  assumes whole: "rw_extent w = length (rw_file w)"
  shows "\<exists>bytes. rw_append data w = Some (write_all bytes w) \<and> bytes \<noteq> []
    \<and> reads_back (rw_extent w) (rw_file w) False bytes data \<and> cut_short (rw_extent w) (rw_file w) False bytes"
proof -
  let ?off = "rw_extent w" let ?p = "padding ?off" let ?w = "write_all (replicate ?p 0) w"
  have "rw_extent ?w = length (rw_file ?w)" using whole by simp
  from append_loop_reads [OF this, of 0 data True] padding_room_after [of ?off] obtain bytes where
    bytes: "append_loop data 0 True ?w = Some (write_all bytes ?w)" "bytes \<noteq> []"
      "reads_back (?off + ?p) (rw_file w @ replicate ?p 0) False bytes data" "cut_short (?off + ?p) (rw_file w @ replicate ?p 0) False bytes"
    by auto
  let ?bytes = "replicate ?p 0 @ bytes"
  have "reads_back ?off (rw_file w) False ?bytes data"
    unfolding reads_back_def
  proof (intro allI impI)
    fix rest and r :: record_reader and out :: record_buffer
    assume r: "rd_file r = rw_file w @ ?bytes @ rest" "reader_at ?off r" "\<not> rb_ended out" "rb_started out = False"
    from read_inner_after_padding [OF r(2) _ whole [symmetric] r(3), of "bytes @ rest"] r(1) obtain q where
      q: "reader_at (?off + ?p) q" "read_inner r out = read_inner q out" "rd_file q = rd_file r" by auto
    have "rd_file q = (rw_file w @ replicate ?p 0) @ bytes @ rest" using q(3) r(1) by simp
    from bytes(3) [unfolded reads_back_def, rule_format, OF this q(1) r(3,4)] q(2)
    show "\<exists>r'. read_inner r out = Some (r', out\<lparr>rb_started := True, rb_ended := True, rb_data := rb_data out @ data\<rparr>, Inr ())
      \<and> reader_at (?off + length ?bytes) r'" by (simp add: add.assoc)
  qed
  moreover have "cut_short ?off (rw_file w) False ?bytes"
    unfolding cut_short_def
  proof (intro allI impI)
    fix k and r :: record_reader and out :: record_buffer
    assume k: "k < length ?bytes" and r: "rd_file r = rw_file w @ take k ?bytes" "reader_at ?off r" "\<not> rb_ended out" "rb_started out = False"
    show "\<exists>r' out' e. read_inner r out = Some (r', out', Inl e) \<and> stuck r' out' e"
    proof (cases "k < ?p")
      case True
      then show ?thesis using stuck_in_padding [OF r(2) _ whole [symmetric] True r(3)] r(1) by auto
    next
      case False
      then have f: "rd_file r = rw_file w @ replicate ?p 0 @ take (k - ?p) bytes" using r(1) by simp
      from read_inner_after_padding [OF r(2) this whole [symmetric] r(3)] obtain q where
        q: "reader_at (?off + ?p) q" "read_inner r out = read_inner q out" "rd_file q = rd_file r" by blast
      have "rd_file q = (rw_file w @ replicate ?p 0) @ take (k - ?p) bytes" "k - ?p < length bytes" using q(3) f k False by simp_all
      with bytes(4) q(1,2) r(3,4) show ?thesis unfolding cut_short_def by metis
    qed
  qed
  ultimately show ?thesis
    using bytes(1,2) by (intro exI [of _ ?bytes]) (simp add: rw_append_def skip_block_end_padding write_all_twice)
qed

text \<open>At the very end of the file the reader reports the end of the file.\<close>

lemma read_at_end:
  assumes at: "reader_at (length (rd_file r)) r" and out: "\<not> rb_ended out"
  obtains r' where "read_inner r out = Some (r', out, Inl EndOfFile)" "stuck r' out EndOfFile"
proof (cases "padding (length (rd_file r)) = 0")
  case True
  then have "FRAGMENT_HEADER_SIZE \<le> BLOCK_SIZE - length (rd_file r) mod BLOCK_SIZE"
    using padding_room_after [of "length (rd_file r)"] by simp
  from read_fragment_room [OF at this] obtain q where q: "reader_at (length (rd_file r)) q" "block_loaded q"
    "FRAGMENT_HEADER_SIZE \<le> BLOCK_SIZE - rd_block_offset q" "read_fragment r = parse_next q" "rd_file q = rd_file r" by blast
  have "block_rest q = Some []" using loaded_rest [OF q(1,2)] q(5) by simp
  then have p: "parse_next q = Some (q, Inl EndOfFile)"
    using q(3) reader_atD(3) [OF q(1)] by (simp add: parse_next_def parse_fragment_def sub_u64_def)
  have "stuck q out EndOfFile" using p out read_fragment_loaded [OF q(1-3)] by (simp add: stuck_def)
  moreover have "read_inner r out = Some (q, out, Inl EndOfFile)" using p q(4) out by (simp add: read_inner.simps [of r out])
  ultimately show thesis by (intro that)
next
  case False
  let ?r = "read_block_remainder r"
  note r = reader_at_remainder [OF at]
  have f: "read_fragment r = Some (?r, Inl EndOfFile)" using read_fragment_in_padding [OF at] False by simp
  moreover have "read_fragment ?r = Some (?r, Inl EndOfFile)"
    using read_fragment_in_padding [OF r(1)] False remainder_loaded [OF r(2)] by simp
  ultimately show thesis using out by (intro that [of ?r]) (simp_all add: stuck_def read_inner.simps [of r out])
qed

lemma reader_at_buffer [simp]: "reader_at off (r\<lparr>rd_output_buffer := b\<rparr>) = reader_at off r"
  by (simp add: reader_at_def)

lemma reader_at_mode [simp]: "reader_at off (set_recovery_mode mode r) = reader_at off r"
  by (simp add: reader_at_def set_recovery_mode_def)

lemma pending_buffer_fresh:
  "reader_at off r \<Longrightarrow> rd_output_buffer r = None \<Longrightarrow>
   pending_buffer r = \<lparr>rb_started = False, rb_ended = False, rb_start_file_offset = off, rb_data = []\<rparr>"
  by (simp add: pending_buffer_def reader_at_def)

text \<open>A stuck reader reports the end of the records, and the writer made of it continues at the start of the unfinished record.\<close>

lemma stuck_into_writer:
  assumes at: "reader_at (rw_extent w) r" "rd_output_buffer r = None" and content: "rd_file r = rw_file w @ rest" "rw_extent w = length (rw_file w)"
    and inner: "read_inner r (pending_buffer r) = Some (r1, out, Inl e)" "stuck r1 out e"
    and mode: "rd_recovery_mode r = AllowIncomplete \<or> e = EndOfFile \<and> \<not> rb_started out"
  shows "\<exists>r'. rd_read r = Some (r', Inr None) \<and> into_writer True r' = Some (Inr (Some w))"
proof -
  let ?e = "if e = EndOfFile \<and> rb_started out then Incomplete else e"
  let ?r = "r1\<lparr>rd_output_buffer := Some out\<rparr>"
  have e: "e = EndOfFile \<or> e = Incomplete" using inner(2) by (simp add: stuck_def)
  have same: "r\<lparr>rd_output_buffer := None\<rparr> = r" using at(2) by simp
  note fr = read_inner_frame [OF inner(1)]
  have r1: "r1\<lparr>rd_output_buffer := None\<rparr> = r1" using fr at(2) by simp
  have raw: "read_raw r = Some (?r, Inl ?e)" using inner(1) e by (auto simp: read_raw_def same)
  have raw': "read_raw ?r = Some (?r, Inl ?e)"
    using stuck_read_inner [OF inner(2)] e by (auto simp: read_raw_def pending_buffer_def r1)
  have "rb_start_file_offset out = rw_extent w" using fr pending_buffer_fresh [OF at] by simp
  moreover have "rd_file r1 = rw_file w @ rest" using fr content by simp
  ultimately have "into_writer True ?r = Some (Inr (Some w))"
    using e raw' content(2) by (auto simp: into_writer_def set_len_def)
  moreover have "rd_read r = Some (?r, Inr None)"
    using raw e mode fr by (auto simp: rd_read_def split: record_recovery_mode.splits)
  ultimately show ?thesis by blast
qed

lemma rd_read_end:
  assumes "reader_at (rw_extent w) r" "rd_output_buffer r = None" "rd_file r = rw_file w" "rw_extent w = length (rw_file w)"
  shows "\<exists>r'. rd_read r = Some (r', Inr None) \<and> into_writer True r' = Some (Inr (Some w))"
proof -
  have p: "\<not> rb_ended (pending_buffer r)" "\<not> rb_started (pending_buffer r)" using pending_buffer_fresh [OF assms(1,2)] by simp_all
  from assms have "reader_at (length (rd_file r)) r" by simp
  from read_at_end [OF this p(1)] obtain r' where "read_inner r (pending_buffer r) = Some (r', pending_buffer r, Inl EndOfFile)"
    "stuck r' (pending_buffer r) EndOfFile" by blast
  from stuck_into_writer [OF assms(1,2) _ assms(4) this, of "[]"] assms(3) p(2) show ?thesis by simp
qed

lemma rd_read_record:
  assumes at: "reader_at (rw_extent w) r" "rd_output_buffer r = None" and w: "rw_extent w = length (rw_file w)" "rw_append data w = Some w'"
    and content: "rd_file r = rw_file w' @ rest"
  shows "\<exists>r'. rd_read r = Some (r', Inr (Some data)) \<and> reader_at (rw_extent w') r' \<and> rd_file r' = rd_file r \<and> rd_output_buffer r' = None
    \<and> rd_recovery_mode r' = rd_recovery_mode r"
proof -
  from rw_append_reads [OF w(1), of data] w(2) obtain bytes where
    w': "w' = write_all bytes w" and rb: "reads_back (rw_extent w) (rw_file w) False bytes data" by auto
  note p = pending_buffer_fresh [OF at]
  have "rd_file r = rw_file w @ bytes @ rest" using content w' by simp
  from rb [unfolded reads_back_def, rule_format, OF this at(1), of "pending_buffer r"] p obtain r' where
    r': "read_inner r (pending_buffer r) = Some (r', (pending_buffer r)\<lparr>rb_started := True, rb_ended := True, rb_data := data\<rparr>, Inr ())"
      "reader_at (rw_extent w + length bytes) r'" by auto
  have same: "r\<lparr>rd_output_buffer := None\<rparr> = r" using at(2) by simp
  have "rd_read r = Some (r', Inr (Some data))" using r'(1) by (simp add: rd_read_def read_raw_def same)
  then show ?thesis using r'(2) read_inner_frame [OF r'(1)] at(2) w' by simp
qed

lemma rd_read_cut:
  assumes at: "reader_at (rw_extent w) r" "rd_output_buffer r = None" "rd_recovery_mode r = AllowIncomplete"
    and w: "rw_extent w = length (rw_file w)" "rw_append data w = Some w'"
    and content: "rd_file r = take n (rw_file w')" "length (rw_file w) \<le> n" "n < length (rw_file w')"
  shows "\<exists>r'. rd_read r = Some (r', Inr None) \<and> into_writer True r' = Some (Inr (Some w))"
proof -
  from rw_append_reads [OF w(1), of data] w(2) obtain bytes where
    w': "w' = write_all bytes w" and cut: "cut_short (rw_extent w) (rw_file w) False bytes" by auto
  let ?k = "n - length (rw_file w)"
  have k: "?k < length bytes" and f: "rd_file r = rw_file w @ take ?k bytes" using content w' by simp_all
  note p = pending_buffer_fresh [OF at(1,2)]
  from cut [unfolded cut_short_def, rule_format, OF k f at(1), of "pending_buffer r"] p obtain r' out e where
    "read_inner r (pending_buffer r) = Some (r', out, Inl e)" "stuck r' out e" by auto
  from stuck_into_writer [OF at(1,2) f w(1) this] at(3) show ?thesis by simp
qed

section \<open>Whole files\<close>

fun append_all :: "byte list list \<Rightarrow> record_writer \<Rightarrow> record_writer option" where
  "append_all [] w = Some w"
| "append_all (data # ds) w = rw_append data w \<bind> append_all ds"

text \<open>How many records lie completely in the first bytes of the file.\<close>

fun whole_records :: "nat \<Rightarrow> record_writer \<Rightarrow> byte list list \<Rightarrow> nat" where
  "whole_records n w [] = 0"
| "whole_records n w (data # ds) = (case rw_append data w of
      Some w' \<Rightarrow> if rw_extent w' \<le> n then Suc (whole_records n w' ds) else 0
    | None \<Rightarrow> 0)"

lemma rw_append_total:
  assumes "rw_extent w = length (rw_file w)"
  obtains bytes where "rw_append data w = Some (write_all bytes w)" "rw_extent (write_all bytes w) = length (rw_file (write_all bytes w))"
  using rw_append_reads [OF assms, of data] assms that by auto

lemma append_all_total:
  "rw_extent w = length (rw_file w) \<Longrightarrow> \<exists>W bytes. append_all ds w = Some W \<and> rw_file W = rw_file w @ bytes \<and> rw_extent W = length (rw_file W)"
proof (induction ds arbitrary: w)
  case (Cons data ds)
  from rw_append_total [OF Cons.prems] obtain bytes where
    b: "rw_append data w = Some (write_all bytes w)" "rw_extent (write_all bytes w) = length (rw_file (write_all bytes w))" by blast
  from Cons.IH [OF b(2)] b(1) show ?case by auto
qed auto

lemma read_all_simps:
  "rd_read r = Some (r', Inr None) \<Longrightarrow> read_all r = Some (r', Inr [])"
  "rd_read r = Some (r', Inr (Some data)) \<Longrightarrow> read_all r' = Some (r2, Inr ds) \<Longrightarrow> read_all r = Some (r2, Inr (data # ds))"
  by (simp_all add: read_all.simps [of r])

lemma read_all_prefix:
  assumes "rw_extent w = length (rw_file w)" "append_all ds w = Some W" "rd_file r = take n (rw_file W)" "length (rw_file w) \<le> n"
    and "reader_at (rw_extent w) r" "rd_output_buffer r = None" "rd_recovery_mode r = AllowIncomplete \<or> length (rw_file W) \<le> n"
  shows "\<exists>r' w'. read_all r = Some (r', Inr (take (whole_records n w ds) ds))
    \<and> append_all (take (whole_records n w ds) ds) w = Some w' \<and> into_writer True r' = Some (Inr (Some w'))"
  using assms
proof (induction ds arbitrary: w r)
  case Nil
  then have "rd_file r = rw_file w" by simp
  from rd_read_end [OF Nil.prems(5,6) this Nil.prems(1)] show ?case by (auto intro: read_all_simps)
next
  case (Cons data ds)
  from rw_append_total [OF Cons.prems(1)] obtain bytes where
    b: "rw_append data w = Some (write_all bytes w)" "rw_extent (write_all bytes w) = length (rw_file (write_all bytes w))" by blast
  let ?w = "write_all bytes w"
  have W: "append_all ds ?w = Some W" using Cons.prems(2) b(1) by simp
  with append_all_total [OF b(2), of ds] obtain more where more: "rw_file W = rw_file ?w @ more" by auto
  show ?case
  proof (cases "rw_extent ?w \<le> n")
    case True
    then have "rd_file r = rw_file ?w @ take (n - length (rw_file ?w)) more" using Cons.prems(3) more b(2) by simp
    from rd_read_record [OF Cons.prems(5,6,1) b(1) this] obtain r1 where
      r1: "rd_read r = Some (r1, Inr (Some data))" "reader_at (rw_extent ?w) r1" "rd_file r1 = rd_file r" "rd_output_buffer r1 = None"
        "rd_recovery_mode r1 = rd_recovery_mode r" by blast
    have "\<exists>r' w'. read_all r1 = Some (r', Inr (take (whole_records n ?w ds) ds))
      \<and> append_all (take (whole_records n ?w ds) ds) ?w = Some w' \<and> into_writer True r' = Some (Inr (Some w'))"
      using Cons.prems(3,7) True b(2) r1 by (intro Cons.IH [OF b(2) W]) simp_all
    then obtain r' w' where "read_all r1 = Some (r', Inr (take (whole_records n ?w ds) ds))"
      "append_all (take (whole_records n ?w ds) ds) ?w = Some w'" "into_writer True r' = Some (Inr (Some w'))" by blast
    with True b(1) read_all_simps(2) [OF r1(1)] show ?thesis by simp
  next
    case False
    then have n: "n < length (rw_file ?w)" using b(2) by simp
    then have "rd_file r = take n (rw_file ?w)" "rd_recovery_mode r = AllowIncomplete" using Cons.prems(3,7) more by auto
    from rd_read_cut [OF Cons.prems(5,6) this(2) Cons.prems(1) b(1) this(1) Cons.prems(4) n] False b(1)
    show ?thesis by (auto intro: read_all_simps)
  qed
qed

lemma whole_records_all:
  "rw_extent w = length (rw_file w) \<Longrightarrow> append_all ds w = Some W \<Longrightarrow> length (rw_file W) \<le> n \<Longrightarrow> whole_records n w ds = length ds"
proof (induction ds arbitrary: w)
  case (Cons data ds)
  from rw_append_total [OF Cons.prems(1)] obtain bytes where
    b: "rw_append data w = Some (write_all bytes w)" "rw_extent (write_all bytes w) = length (rw_file (write_all bytes w))" by blast
  have W: "append_all ds (write_all bytes w) = Some W" using Cons.prems(2) b(1) by simp
  with append_all_total [OF b(2), of ds] have "rw_extent (write_all bytes w) \<le> length (rw_file W)" using b(2) by auto
  with Cons.IH [OF b(2) W Cons.prems(3)] Cons.prems(3) b(1) show ?case by simp
qed simp

lemma new_writer_whole: "rw_extent record_writer_new = length (rw_file record_writer_new)"
  by (simp add: record_writer_new_def)

section \<open>Theorems\<close>

text \<open>
  C7: What is written is read back. Appending any records to a new log never panics, and a
  reader of the resulting file, in either recovery mode, returns exactly these records in order
  and then the end of the log. Records of every length, empty ones and ones that span several
  blocks included, are covered.
\<close>

theorem records_read_back:
  "\<exists>w r. append_all records record_writer_new = Some w
     \<and> read_all (set_recovery_mode mode (record_reader_open (rw_file w))) = Some (r, Inr records)"
proof -
  from append_all_total [OF new_writer_whole, of records] obtain w where
    w: "append_all records record_writer_new = Some w" by blast
  let ?n = "length (rw_file w)" and ?r = "set_recovery_mode mode (record_reader_open (rw_file w))"
  have "reader_at (rw_extent record_writer_new) ?r" using reader_at_open [of "rw_file w"]
    by (simp add: record_writer_new_def)
  then have "\<exists>r' w'. read_all ?r = Some (r', Inr (take (whole_records ?n record_writer_new records) records))
    \<and> append_all (take (whole_records ?n record_writer_new records) records) record_writer_new = Some w' \<and> into_writer True r' = Some (Inr (Some w'))"
    by (intro read_all_prefix [OF new_writer_whole w]) (simp_all add: set_recovery_mode_def record_reader_open_def record_writer_new_def)
  with w whole_records_all [OF new_writer_whole w order.refl] show ?thesis by auto
qed

text \<open>
  C6: A crash loses only the end of the log. When the file of a log is cut off after any number
  of bytes, reading it gives exactly the records that lie completely before the cut, without an
  error, and the writer made from the reader is in the very state of a writer that has appended
  these records, so that appending can go on.
\<close>

theorem torn_log_recovers:
  "\<exists>w. append_all records record_writer_new = Some w \<and> (\<forall>n. \<exists>r w'.
      read_all (record_reader_open (take n (rw_file w))) = Some (r, Inr (take (whole_records n record_writer_new records) records))
    \<and> append_all (take (whole_records n record_writer_new records) records) record_writer_new = Some w'
    \<and> into_writer True r = Some (Inr (Some w')))"
proof -
  from append_all_total [OF new_writer_whole, of records] obtain w where
    w: "append_all records record_writer_new = Some w" by blast
  have "reader_at (rw_extent record_writer_new) (record_reader_open f)" for f
    using reader_at_open by (simp add: record_writer_new_def)
  with w show ?thesis
    by (intro exI [of _ w] conjI allI read_all_prefix [OF new_writer_whole w])
      (simp_all add: record_reader_open_def record_writer_new_def)
qed

section \<open>Damaged files\<close>

text \<open>Two fragments in the block at the start of the buffer, read one after the other.\<close>

lemma parse_next_loaded:
  assumes "rd_block_offset r \<le> BLOCK_SIZE" "rd_block r = pre @ fragment_bytes ty data @ rest" "length pre = rd_block_offset r" "ty \<noteq> ZERO"
    and "rd_block_offset r + (FRAGMENT_HEADER_SIZE + length data) \<le> BLOCK_SIZE"
  shows "parse_next r = Some (r\<lparr>rd_block_offset := rd_block_offset r + (FRAGMENT_HEADER_SIZE + length data)\<rparr>, Inr (ty, data))"
  using assms parse_fragment_bytes [of ty data "BLOCK_SIZE - rd_block_offset r" rest]
  by (simp add: parse_next_def block_rest_def sub_u64_def)

text \<open>
  C27: After a corrupt block the reader loses records. The mark that makes the reader skip a
  corrupt block is never taken back, so every later read of a fragment skips another block: of
  two intact records in the block after the corrupt one only the first is returned, and the
  second read reports the end of the file.
\<close>

theorem records_lost_after_corruption:
  assumes "2 * FRAGMENT_HEADER_SIZE + length a + length b \<le> BLOCK_SIZE"
  shows "\<exists>r1 r2 r3. read_raw (record_reader_open (replicate BLOCK_SIZE 9 @ fragment_bytes FULL a @ fragment_bytes FULL b)) = Some (r1, Inl Corrupt)
    \<and> read_raw r1 = Some (r2, Inr a) \<and> read_raw r2 = Some (r3, Inl EndOfFile)"
proof -
  let ?rest = "fragment_bytes FULL a @ fragment_bytes FULL b" let ?file = "replicate BLOCK_SIZE 9 @ ?rest"
  let ?r0 = "record_reader_open ?file"
  let ?r1 = "?r0\<lparr>rd_block := replicate BLOCK_SIZE 9, rd_block_corrupt := True\<rparr>"
  let ?r2 = "?r1\<lparr>rd_file_offset := BLOCK_SIZE, rd_block := ?rest, rd_block_offset := FRAGMENT_HEADER_SIZE + length a\<rparr>"
  let ?r3 = "?r1\<lparr>rd_file_offset := BLOCK_SIZE + BLOCK_SIZE, rd_block := [], rd_block_offset := 0\<rparr>"
  have same: "r\<lparr>rd_output_buffer := None\<rparr> = r" if "rd_output_buffer r = None" for r :: record_reader using that by simp
  have six: "6 < BLOCK_SIZE" "BLOCK_SIZE \<noteq> 0" by (simp_all add: BLOCK_SIZE_def)
  have "parse_fragment (replicate BLOCK_SIZE 9) BLOCK_SIZE = Inl Corrupt"
    using six by (simp add: parse_fragment_def fragment_from_value_def Let_def)
  then have f1: "read_fragment ?r0 = Some (?r1, Inl Corrupt)"
    by (simp add: six(2) read_fragment_def skip_corrupt_block_def read_block_remainder_def parse_next_def block_rest_def
        record_reader_open_def sub_u64_def Let_def)
  have len: "length ?rest \<le> BLOCK_SIZE" using assms by simp
  have load: "read_block_remainder (skip_corrupt_block ?r1) = ?r1\<lparr>rd_file_offset := BLOCK_SIZE, rd_block := ?rest\<rparr>"
    using len by (auto simp: read_block_remainder_def skip_corrupt_block_def record_reader_open_def Let_def)
  then have f2: "read_fragment ?r1 = Some (?r2, Inr (FULL, a))"
    using parse_next_loaded [of "?r1\<lparr>rd_file_offset := BLOCK_SIZE, rd_block := ?rest\<rparr>" "[]" FULL a "fragment_bytes FULL b"] assms
    by (simp add: read_fragment_def record_reader_open_def sub_u64_def)
  have "read_block_remainder (skip_corrupt_block ?r2) = ?r3"
    using len by (auto simp: read_block_remainder_def skip_corrupt_block_def record_reader_open_def Let_def)
  then have f3: "read_fragment ?r2 = Some (?r3, Inl EndOfFile)"
    by (simp add: read_fragment_def parse_next_def block_rest_def parse_fragment_def record_reader_open_def sub_u64_def)
  have "read_raw ?r0 = Some (?r1, Inl Corrupt)"
    using f1 by (simp add: read_raw_def same record_reader_open_def read_inner.simps pending_buffer_def)
  moreover have "read_raw ?r1 = Some (?r2, Inr a)"
    using f2 by (simp add: read_raw_def same record_reader_open_def read_inner.simps pending_buffer_def add_fragment_def)
  moreover have "\<exists>r3. read_raw ?r2 = Some (r3, Inl EndOfFile)"
    using f3 by (simp add: read_raw_def same record_reader_open_def read_inner.simps pending_buffer_def)
  ultimately show ?thesis by blast
qed

theorem records_lost_after_corruption_witness:
  "2 * FRAGMENT_HEADER_SIZE + length [1 :: byte] + length [2 :: byte] \<le> BLOCK_SIZE
   \<and> (\<exists>r1 r2 r3. read_raw (record_reader_open (replicate BLOCK_SIZE 9 @ fragment_bytes FULL [1] @ fragment_bytes FULL [2])) = Some (r1, Inl Corrupt)
        \<and> read_raw r1 = Some (r2, Inr [1]) \<and> read_raw r2 = Some (r3, Inl EndOfFile))"
  using records_lost_after_corruption [of "[1]" "[2]"] by (simp add: FRAGMENT_HEADER_SIZE_def BLOCK_SIZE_def)

text \<open>
  C28: A superseded record is not dropped but prepended. When the first fragment of a record is
  followed by a complete record, the reader reports that the unfinished record was dropped, but
  the next read returns its data in front of the data of the complete record.
\<close>

theorem dropped_data_returned:
  assumes "2 * FRAGMENT_HEADER_SIZE + length a + length b \<le> BLOCK_SIZE"
  shows "\<exists>r1 r2. read_raw (record_reader_open (fragment_bytes FIRST a @ fragment_bytes FULL b)) = Some (r1, Inl Dropped)
    \<and> read_raw r1 = Some (r2, Inr (a @ b))"
proof -
  let ?n = "FRAGMENT_HEADER_SIZE + length a" and ?file = "fragment_bytes FIRST a @ fragment_bytes FULL b"
  let ?r0 = "record_reader_open ?file"
  let ?r1 = "?r0\<lparr>rd_block := ?file, rd_block_offset := ?n\<rparr>"
  let ?r2 = "?r0\<lparr>rd_block := ?file, rd_block_offset := ?n + (FRAGMENT_HEADER_SIZE + length b)\<rparr>"
  have len: "length ?file \<le> BLOCK_SIZE" using assms by simp
  have load: "read_block_remainder ?r0 = ?r0\<lparr>rd_block := ?file\<rparr>" "read_block_remainder ?r1 = ?r1"
    using len by (auto simp: read_block_remainder_def record_reader_open_def Let_def)
  have f1: "read_fragment ?r0 = Some (?r1, Inr (FIRST, a))"
    using parse_next_loaded [of "?r0\<lparr>rd_block := ?file\<rparr>" "[]" FIRST a "fragment_bytes FULL b"] load(1) assms
    by (simp add: read_fragment_def skip_corrupt_block_def record_reader_open_def sub_u64_def)
  have "FRAGMENT_HEADER_SIZE \<le> BLOCK_SIZE - ?n" using assms by linarith
  then have f2: "read_fragment ?r1 = Some (?r2, Inr (FULL, b))"
    using parse_next_loaded [of ?r1 "fragment_bytes FIRST a" FULL b "[]"] load(2) assms
    by (simp add: read_fragment_def skip_corrupt_block_def record_reader_open_def sub_u64_def)
  let ?out0 = "pending_buffer ?r0"
  let ?out1 = "?out0\<lparr>rb_data := a, rb_started := True\<rparr>" let ?out2 = "?out0\<lparr>rb_data := a @ b, rb_started := True, rb_ended := True\<rparr>"
  have p: "rb_data ?out0 = []" "\<not> rb_started ?out0" "\<not> rb_ended ?out0" by (simp_all add: pending_buffer_def record_reader_open_def)
  have "read_inner ?r1 ?out1 = Some (?r2, ?out2, Inl Dropped)" using f2 p by (simp add: read_inner.simps [of ?r1] add_fragment_def)
  then have "read_inner ?r0 ?out0 = Some (?r2, ?out2, Inl Dropped)" using f1 p by (simp add: read_inner.simps [of ?r0] add_fragment_def)
  moreover have "?r0\<lparr>rd_output_buffer := None\<rparr> = ?r0" by (simp add: record_reader_open_def)
  ultimately have r: "read_raw ?r0 = Some (?r2\<lparr>rd_output_buffer := Some ?out2\<rparr>, Inl Dropped)" by (simp add: read_raw_def)
  have "read_raw (?r2\<lparr>rd_output_buffer := Some ?out2\<rparr>) = Some (?r2\<lparr>rd_output_buffer := None\<rparr>, Inr (a @ b))"
    by (simp add: read_raw_def pending_buffer_def read_inner.simps)
  with r show ?thesis by blast
qed

theorem dropped_data_returned_witness:
  "2 * FRAGMENT_HEADER_SIZE + length [1 :: byte] + length [2 :: byte] \<le> BLOCK_SIZE
   \<and> (\<exists>r1 r2. read_raw (record_reader_open (fragment_bytes FIRST [1] @ fragment_bytes FULL [2])) = Some (r1, Inl Dropped)
        \<and> read_raw r1 = Some (r2, Inr [1, 2]))"
  using dropped_data_returned [of "[1]" "[2]"] by (simp add: FRAGMENT_HEADER_SIZE_def BLOCK_SIZE_def)

end
