(* ===== verification/Segmented_Log.thy ===== *)
theory Segmented_Log
  imports Memory_Log Record_Roundtrip
begin

text \<open>
  \<open>SegmentedLog\<close> of \<open>pkg/raft/src/log/segmented_log.rs\<close>, the log a Raft server keeps on disk: a
  chain of record logs, each beginning with a header record that holds the position before its
  first entry, and a \<open>MemoryLogSync\<close> with the entries of all of them. An entry whose index is not
  above the last one truncates the log, on disk too. A background task closes flushed files,
  starts a new file when the last one is large, and deletes the files that are discarded.

  The encoding of a record as bytes is generated from \<open>log.proto\<close>; \<open>serialize\<close> and \<open>parse\<close> are
  arguments of the operations that use it. The directory is the list of the numbered files
  with their contents. How far the file of a segment has been synced is an argument.
\<close>

section \<open>State\<close>

record segmented_log_options =
  so_target_segment_size :: nat
  so_max_segment_size :: nat

definition default_segmented_log_options :: segmented_log_options where
  "default_segmented_log_options = \<lparr>so_target_segment_size = 32 * 1024 * 1024, so_max_segment_size = 64 * 1024 * 1024\<rparr>"

record log_record =
  lr_prev :: "log_position option"
  lr_entry :: "log_entry option"

type_synonym record_serializer = "log_record \<Rightarrow> byte list"
type_synonym record_parser = "byte list \<Rightarrow> log_record option"

record open_segment =
  os_writer :: record_writer
  os_entry_end_offsets :: "(log_sequence \<times> nat) list"

record segment =
  sg_number :: nat
  sg_index_range :: "(log_index \<times> log_index) option"
  sg_open :: "open_segment option"
  sg_discarded :: bool

type_synonym log_directory = "(nat \<times> byte list) list"

record segmented_log =
  sl_dir :: log_directory
  sl_memory_log :: memory_log
  sl_segments :: "segment list"
  sl_last_position :: log_position
  sl_last_flushed :: log_sequence
  sl_flush_error :: bool
  sl_last_observation :: "(log_position \<times> log_sequence) option"

definition empty_segmented_log :: "log_directory \<Rightarrow> segmented_log" where
  "empty_segmented_log dir = \<lparr>sl_dir = dir, sl_memory_log = ml_new, sl_segments = [], sl_last_position = zero_position,
     sl_last_flushed = zero_sequence, sl_flush_error = False, sl_last_observation = None\<rparr>"

definition update_last :: "('a \<Rightarrow> 'a) \<Rightarrow> 'a list \<Rightarrow> 'a list option" where
  "update_last f xs = (if xs = [] then None else Some (butlast xs @ [f (last xs)]))"

definition discard_segment :: "segment \<Rightarrow> segment" where
  "discard_segment sg = sg\<lparr>sg_index_range := None, sg_discarded := True\<rparr>"

definition new_segment :: "nat \<Rightarrow> open_segment option \<Rightarrow> segment" where
  "new_segment number open_part = \<lparr>sg_number = number, sg_index_range = None, sg_open = open_part, sg_discarded = False\<rparr>"

section \<open>Appending in memory\<close>

definition truncate_segment :: "log_index \<Rightarrow> segment \<Rightarrow> segment" where
  "truncate_segment index sg = (case sg_index_range sg of
      Some (s, e) \<Rightarrow>
        if index < e then if index \<le> s then discard_segment sg else sg\<lparr>sg_index_range := Some (s, index)\<rparr>
        else sg
    | None \<Rightarrow> sg)"

definition extend_segment :: "log_index \<Rightarrow> segment \<Rightarrow> segment" where
  "extend_segment index sg = sg\<lparr>sg_index_range := Some (case sg_index_range sg of Some (s, _) \<Rightarrow> (s, index + 1) | None \<Rightarrow> (index, index + 1)),
     sg_discarded := False\<rparr>"

definition append_in_memory :: "log_entry \<Rightarrow> log_sequence \<Rightarrow> segmented_log \<Rightarrow> segmented_log option" where
  "append_in_memory entry sequence s = do {
     memory_log \<leftarrow> ml_append (sl_memory_log s) entry sequence;
     let index = pos_index (le_pos entry);
     let segments = (if index \<le> pos_index (sl_last_position s) then map (truncate_segment index) (sl_segments s) else sl_segments s);
     segments \<leftarrow> update_last (extend_segment index) segments;
     Some (s\<lparr>sl_memory_log := memory_log, sl_segments := segments, sl_last_position := le_pos entry\<rparr>)
   }"

section \<open>Opening\<close>

type_synonym 'a io_result = "(string + 'a) option"

definition open_body_record :: "record_parser \<Rightarrow> byte list \<Rightarrow> segmented_log \<Rightarrow> segmented_log io_result" where
  "open_body_record parse body_record s = (case parse body_record of
      None \<Rightarrow> Some (Inl ''parse error'')
    | Some rec \<Rightarrow>
        if lr_prev rec \<noteq> None then Some (Inl ''Only expecting 'prev' in the header entry in each log segment'')
        else (case lr_entry rec of
            None \<Rightarrow> Some (Inr s)
          | Some entry \<Rightarrow>
              let sequence = next_sequence (sl_last_flushed s)
              in map_option Inr (append_in_memory entry sequence (s\<lparr>sl_last_flushed := sequence\<rparr>))))"

text \<open>The records of a file after its header, applied one after the other as they are read.\<close>

function open_body :: "record_parser \<Rightarrow> record_reader \<Rightarrow> segmented_log \<Rightarrow> (segmented_log \<times> record_reader) io_result" where
  "open_body parse reader s = (case rd_read reader of
      None \<Rightarrow> None
    | Some (_, Inl _) \<Rightarrow> Some (Inl ''read error'')
    | Some (reader1, Inr None) \<Rightarrow> Some (Inr (s, reader1))
    | Some (reader1, Inr (Some body_record)) \<Rightarrow>
        (case open_body_record parse body_record s of
           Some (Inr s1) \<Rightarrow> open_body parse reader1 s1
         | Some (Inl err) \<Rightarrow> Some (Inl err)
         | None \<Rightarrow> None))"
  by pat_completeness auto
termination
  by (relation "measure (\<lambda>(_, r, _). bytes_left r + (if rd_output_buffer r = None then 0 else 1))")
    (auto dest: rd_read_progress)

declare open_body.simps [simp del]

text \<open>A header that does not continue the log starts it anew.\<close>

definition open_header :: "log_position \<Rightarrow> segmented_log \<Rightarrow> segmented_log io_result" where
  "open_header prev s =
     (if pos_index (sl_last_position s) \<noteq> pos_index prev then
        (case ml_discard (sl_memory_log s) prev of
           Some (Inr memory_log) \<Rightarrow> Some (Inr (s\<lparr>sl_memory_log := memory_log, sl_last_position := prev,
               sl_segments := map discard_segment (sl_segments s)\<rparr>))
         | Some (Inl err) \<Rightarrow> Some (Inl err)
         | None \<Rightarrow> None)
      else Some (Inr s))"

text \<open>One file, with the reader that is at its end afterwards.\<close>

definition open_file :: "record_parser \<Rightarrow> nat \<times> byte list \<Rightarrow> segmented_log \<times> record_reader option \<Rightarrow> (segmented_log \<times> record_reader option) io_result" where
  "open_file parse numbered_file state = (case (numbered_file, state) of ((log_number, content), (s, last_reader)) \<Rightarrow>
     (case rd_read (record_reader_open content) of
        None \<Rightarrow> None
      | Some (_, Inl _) \<Rightarrow> Some (Inl ''read error'')
      | Some (_, Inr None) \<Rightarrow> Some (Inr (s\<lparr>sl_dir := AList.delete log_number (sl_dir s)\<rparr>, last_reader))
      | Some (reader, Inr (Some header_record)) \<Rightarrow>
          (case parse header_record of
             None \<Rightarrow> Some (Inl ''parse error'')
           | Some header \<Rightarrow>
               (case lr_prev header of
                  None \<Rightarrow> Some (Inl ''Malformed header entry in log'')
                | Some prev \<Rightarrow>
                    if lr_entry header \<noteq> None then Some (Inl ''Malformed header entry in log'')
                    else (case open_header prev s of
                        Some (Inr s1) \<Rightarrow>
                          map_option (map_sum id (\<lambda>(s2, reader1). (s2, Some reader1)))
                            (open_body parse reader (s1\<lparr>sl_segments := sl_segments s1 @ [new_segment log_number None]\<rparr>))
                      | Some (Inl err) \<Rightarrow> Some (Inl err)
                      | None \<Rightarrow> None)))))"

fun open_files :: "record_parser \<Rightarrow> log_directory \<Rightarrow> segmented_log \<times> record_reader option \<Rightarrow> (segmented_log \<times> record_reader option) io_result" where
  "open_files parse [] st = Some (Inr st)"
| "open_files parse (f # fs) st = (case open_file parse f st of
      Some (Inr st1) \<Rightarrow> open_files parse fs st1
    | err \<Rightarrow> err)"

definition header_record :: "log_position \<Rightarrow> log_record" where
  "header_record prev = \<lparr>lr_prev = Some prev, lr_entry = None\<rparr>"

text \<open>\<open>RecordWriter::create_new\<close> in the directory, followed by the header. It fails when the file exists.\<close>

definition create_file :: "record_serializer \<Rightarrow> nat \<Rightarrow> log_position \<Rightarrow> log_directory \<Rightarrow> (log_directory \<times> record_writer) io_result" where
  "create_file serialize number prev dir =
     (if map_of dir number \<noteq> None then Some (Inl ''file exists'')
      else do {
        writer \<leftarrow> rw_append (serialize (header_record prev)) record_writer_new;
        Some (Inr (AList.update number (rw_file writer) dir, writer))
      })"

definition open_last_segment :: "record_writer \<Rightarrow> segmented_log \<Rightarrow> segmented_log option" where
  "open_last_segment writer s = do {
     segments \<leftarrow> update_last (\<lambda>sg. sg\<lparr>sg_open := Some \<lparr>os_writer = writer, os_entry_end_offsets = []\<rparr>\<rparr>) (sl_segments s);
     Some (s\<lparr>sl_segments := segments, sl_dir := AList.update (sg_number (last segments)) (rw_file writer) (sl_dir s)\<rparr>)
   }"

definition sl_open :: "record_serializer \<Rightarrow> record_parser \<Rightarrow> log_directory \<Rightarrow> segmented_log io_result" where
  "sl_open serialize parse dir = (case open_files parse (sort_key fst dir) (empty_segmented_log dir, None) of
      None \<Rightarrow> None
    | Some (Inl err) \<Rightarrow> Some (Inl err)
    | Some (Inr (s, Some last_reader)) \<Rightarrow>
        (case into_writer True last_reader of
           Some (Inr (Some writer)) \<Rightarrow> map_option Inr (open_last_segment writer s)
         | Some (Inr None) \<Rightarrow> None
         | Some (Inl err) \<Rightarrow> Some (Inl err)
         | None \<Rightarrow> None)
    | Some (Inr (s, None)) \<Rightarrow>
        (case create_file serialize 1 (sl_last_position s) (sl_dir s) of
           Some (Inr (dir1, writer)) \<Rightarrow>
             map_option Inr (open_last_segment writer (s\<lparr>sl_dir := dir1, sl_segments := sl_segments s @ [new_segment 1 None]\<rparr>))
         | Some (Inl err) \<Rightarrow> Some (Inl err)
         | None \<Rightarrow> None))"

section \<open>The operations of the \<open>Log\<close> trait\<close>

definition sl_term :: "segmented_log \<Rightarrow> log_index \<Rightarrow> raft_term option option" where
  "sl_term s index = ml_term (sl_memory_log s) index"

definition sl_prev :: "segmented_log \<Rightarrow> log_position" where
  "sl_prev s = ml_prev (sl_memory_log s)"

definition sl_last_index :: "segmented_log \<Rightarrow> log_index" where
  "sl_last_index s = ml_last_index (sl_memory_log s)"

definition sl_entry :: "segmented_log \<Rightarrow> log_index \<Rightarrow> (log_entry \<times> log_sequence) option" where
  "sl_entry s index = ml_entry (sl_memory_log s) index"

definition sl_entries :: "segmented_log \<Rightarrow> log_index \<Rightarrow> log_index \<Rightarrow> (log_entry list \<times> log_sequence) option" where
  "sl_entries s start_index end_index = ml_entries (sl_memory_log s) start_index end_index"

text \<open>Whether \<open>append\<close> has to wait for a new segment.\<close>

definition append_must_wait :: "segmented_log_options \<Rightarrow> segmented_log \<Rightarrow> bool option" where
  "append_must_wait opts s = do {
     _ \<leftarrow> rust_assert (sl_segments s \<noteq> []);
     let sg = last (sl_segments s);
     if sg_index_range sg = None then Some False
     else do {
       open_part \<leftarrow> sg_open sg;
       Some (rw_current_size (os_writer open_part) \<ge> so_max_segment_size opts)
     }
   }"

definition entry_record :: "log_entry \<Rightarrow> log_record" where
  "entry_record entry = \<lparr>lr_prev = None, lr_entry = Some entry\<rparr>"

definition sl_append :: "record_serializer \<Rightarrow> log_entry \<Rightarrow> log_sequence \<Rightarrow> segmented_log \<Rightarrow> segmented_log option" where
  "sl_append serialize entry sequence s0 = do {
     s \<leftarrow> append_in_memory entry sequence s0;
     _ \<leftarrow> rust_assert (sl_segments s \<noteq> []);
     let sg = last (sl_segments s);
     _ \<leftarrow> rust_assert (\<not> sg_discarded sg);
     open_part \<leftarrow> sg_open sg;
     writer \<leftarrow> rw_append (serialize (entry_record entry)) (os_writer open_part);
     let open_part = \<lparr>os_writer = writer, os_entry_end_offsets = os_entry_end_offsets open_part @ [(sequence, rw_current_size writer)]\<rparr>;
     Some (s\<lparr>sl_segments := butlast (sl_segments s) @ [sg\<lparr>sg_open := Some open_part\<rparr>],
             sl_dir := AList.update (sg_number sg) (rw_file writer) (sl_dir s)\<rparr>)
   }"

text \<open>The search for the first segment to keep, and for one more before it that holds entries.\<close>

fun first_to_keep :: "log_position \<Rightarrow> log_position \<Rightarrow> nat \<Rightarrow> segment list \<Rightarrow> nat option" where
  "first_to_keep pos last_position i [] = None"
| "first_to_keep pos last_position i (sg # rest) =
     (if rest = [] \<and> sg_index_range sg = None \<and> pos_index last_position = pos_index pos then Some i
      else case sg_index_range sg of
        Some (_, e) \<Rightarrow> if pos_index pos + 1 < e then Some i else first_to_keep pos last_position (i + 1) rest
      | None \<Rightarrow> first_to_keep pos last_position (i + 1) rest)"

fun keep_one_more :: "segment list \<Rightarrow> nat \<Rightarrow> nat option" where
  "keep_one_more segments 0 = None"
| "keep_one_more segments (Suc i) = (if sg_index_range (segments ! i) \<noteq> None then Some i else keep_one_more segments i)"

definition discard_before :: "nat \<Rightarrow> segment list \<Rightarrow> segment list" where
  "discard_before n segments = map discard_segment (take n segments) @ drop n segments"

definition create_new_segment :: "record_serializer \<Rightarrow> nat \<Rightarrow> log_position \<Rightarrow> segmented_log \<Rightarrow> segmented_log io_result" where
  "create_new_segment serialize number prev s = (case create_file serialize number prev (sl_dir s) of
      Some (Inr (dir, writer)) \<Rightarrow>
        Some (Inr (s\<lparr>sl_dir := dir,
          sl_segments := sl_segments s @ [new_segment number (Some \<lparr>os_writer = writer, os_entry_end_offsets = []\<rparr>)]\<rparr>))
    | Some (Inl err) \<Rightarrow> Some (Inl err)
    | None \<Rightarrow> None)"

definition sl_discard :: "record_serializer \<Rightarrow> log_position \<Rightarrow> segmented_log \<Rightarrow> segmented_log io_result" where
  "sl_discard serialize pos s = (case first_to_keep pos (sl_last_position s) 0 (sl_segments s) of
      Some first \<Rightarrow> do {
        let first = (case keep_one_more (sl_segments s) first of Some i \<Rightarrow> i | None \<Rightarrow> first);
        first_log_index \<leftarrow> (case sg_index_range (sl_segments s ! first) of
            Some (start, _) \<Rightarrow> sub_u64 start 1
          | None \<Rightarrow> Some (pos_index (sl_last_position s)));
        term \<leftarrow> ml_term (sl_memory_log s) first_log_index;
        term \<leftarrow> term;
        discarded \<leftarrow> ml_discard (sl_memory_log s) (new_position term first_log_index);
        case discarded of
          Inl err \<Rightarrow> Some (Inl err)
        | Inr memory_log \<Rightarrow>
            Some (Inr (s\<lparr>sl_memory_log := memory_log, sl_segments := discard_before first (sl_segments s)\<rparr>))
      }
    | None \<Rightarrow> do {
        _ \<leftarrow> rust_assert (sl_segments s \<noteq> []);
        created \<leftarrow> create_new_segment serialize (sg_number (last (sl_segments s)) + 1) pos s;
        case created of
          Inl err \<Rightarrow> Some (Inl err)
        | Inr s1 \<Rightarrow> do {
            discarded \<leftarrow> ml_discard (sl_memory_log s1) pos;
            case discarded of
              Inl err \<Rightarrow> Some (Inl err)
            | Inr memory_log \<Rightarrow>
                Some (Inr (s1\<lparr>sl_memory_log := memory_log, sl_last_position := pos,
                  sl_segments := discard_before (length (sl_segments s1) - 1) (sl_segments s1)\<rparr>))
          }
      })"

text \<open>\<open>None\<close> means that \<open>wait_for_flush\<close> goes on waiting.\<close>

definition sl_wait_for_flush :: "segmented_log \<Rightarrow> (string + segmented_log) option" where
  "sl_wait_for_flush s =
     (if sl_flush_error s then Some (Inl ''flush error'')
      else
        let next_observation = Some (ml_prev (sl_memory_log s), sl_last_flushed s)
        in if sl_last_observation s = next_observation then None
           else Some (Inr (s\<lparr>sl_last_observation := next_observation\<rparr>)))"

section \<open>The background task\<close>

text \<open>Entries whose end lies in the synced part of the file count as flushed.\<close>

fun pop_flushed :: "nat \<Rightarrow> (log_sequence \<times> nat) list \<Rightarrow> log_sequence \<Rightarrow> (log_sequence \<times> nat) list \<times> log_sequence" where
  "pop_flushed offset [] last_flushed = ([], last_flushed)"
| "pop_flushed offset ((seq, stop) # ends) last_flushed =
     (if stop \<le> offset then pop_flushed offset ends seq else ((seq, stop) # ends, last_flushed))"

text \<open>
  The round of the task over the segments: those that are kept, the numbers of those to
  delete, the number of a segment to create, and the flushed sequence.
\<close>

fun flusher_round :: "segmented_log_options \<Rightarrow> (nat \<Rightarrow> nat) \<Rightarrow> bool \<Rightarrow> log_sequence \<Rightarrow> segment list
    \<Rightarrow> segment list \<times> nat list \<times> nat option \<times> log_sequence" where
  "flusher_round opts synced pending last_flushed [] = ([], [], None, last_flushed)"
| "flusher_round opts synced pending last_flushed (sg # rest) =
     (if sg_discarded sg then
        (let (kept, dropped, new_number, seq) = flusher_round opts synced pending last_flushed rest
         in (kept, sg_number sg # dropped, new_number, seq))
      else case sg_open sg of
        None \<Rightarrow>
          (let (kept, dropped, new_number, seq) = flusher_round opts synced pending last_flushed rest
           in (sg # kept, dropped, new_number, seq))
      | Some open_part \<Rightarrow>
          let (ends, last_flushed) =
                (if pending then (os_entry_end_offsets open_part, last_flushed)
                 else pop_flushed (synced (sg_number sg)) (os_entry_end_offsets open_part) last_flushed);
              roll = (rest = [] \<and> sg_index_range sg \<noteq> None \<and> rw_current_size (os_writer open_part) \<ge> so_target_segment_size opts);
              close = (rest \<noteq> [] \<and> ends = []);
              sg1 = sg\<lparr>sg_open := (if close then None else Some (open_part\<lparr>os_entry_end_offsets := ends\<rparr>))\<rparr>;
              (kept, dropped, new_number, seq) = flusher_round opts synced (pending \<or> \<not> close) last_flushed rest
          in (sg1 # kept, dropped, if roll then Some (sg_number sg + 1) else new_number, seq))"

definition flusher_scan :: "segmented_log_options \<Rightarrow> (nat \<Rightarrow> nat) \<Rightarrow> segmented_log \<Rightarrow> segmented_log \<times> nat list \<times> nat option" where
  "flusher_scan opts synced s =
     (let (kept, dropped, new_number, seq) = flusher_round opts synced False (sl_last_flushed s) (sl_segments s)
      in (s\<lparr>sl_segments := kept, sl_last_flushed := seq\<rparr>, dropped, new_number))"

text \<open>The slow work after the round: the new segment, and the deletion of the files.\<close>

definition flusher_create :: "record_serializer \<Rightarrow> nat \<Rightarrow> segmented_log \<Rightarrow> segmented_log io_result" where
  "flusher_create serialize log_number s = create_new_segment serialize log_number (sl_last_position s) s"

definition flusher_failed :: "segmented_log \<Rightarrow> segmented_log" where
  "flusher_failed s = s\<lparr>sl_flush_error := True\<rparr>"

definition flusher_delete :: "nat list \<Rightarrow> segmented_log \<Rightarrow> segmented_log" where
  "flusher_delete numbers s = s\<lparr>sl_dir := fold AList.delete numbers (sl_dir s)\<rparr>"

end
