(* ===== verification/Segmented_Recovery.thy ===== *)
theory Segmented_Recovery
  imports Segmented_Log
begin

text \<open>
  What opening a segmented log finds on disk. The operations are appends, which may truncate,
  the start of a new file, and the rounds of the flusher. Opening the directory they leave
  gives the log back; when the last file was cut off by a crash, it gives the log as it was after the operations
  whose bytes are complete. Two examples show how a log is lost: a file that is deleted after a
  truncation, and a crash that cuts off a file before the last one.
\<close>

section \<open>Runs\<close>

datatype segment_op = Seg_append log_entry log_sequence | Seg_roll | Seg_scan segmented_log_options "nat \<Rightarrow> nat"

definition seg_step :: "record_serializer \<Rightarrow> segment_op \<Rightarrow> segmented_log \<Rightarrow> segmented_log io_result" where
  "seg_step serialize op s = (case op of
      Seg_append entry sequence \<Rightarrow> map_option Inr (sl_append serialize entry sequence s)
    | Seg_roll \<Rightarrow> flusher_create serialize (sg_number (last (sl_segments s)) + 1) s
    | Seg_scan opts synced \<Rightarrow> Some (Inr (fst (flusher_scan opts synced s))))"

fun seg_run :: "record_serializer \<Rightarrow> segment_op list \<Rightarrow> segmented_log \<Rightarrow> segmented_log io_result" where
  "seg_run serialize [] s = Some (Inr s)"
| "seg_run serialize (op # ops) s = (case seg_step serialize op s of
      Some (Inr s1) \<Rightarrow> seg_run serialize ops s1
    | err \<Rightarrow> err)"

lemma seg_run_append:
  "seg_run serialize (ops @ ops') s = (case seg_run serialize ops s of Some (Inr s1) \<Rightarrow> seg_run serialize ops' s1 | err \<Rightarrow> err)"
  by (induction ops arbitrary: s) (auto split: option.splits sum.splits)

lemma seg_run_snocE:
  assumes "seg_run serialize (ops @ [op]) s = Some (Inr s')"
  obtains s1 where "seg_run serialize ops s = Some (Inr s1)" "seg_step serialize op s1 = Some (Inr s')"
  using assms by (auto simp: seg_run_append split: option.splits sum.splits)

section \<open>Logs that agree up to sequence numbers\<close>

text \<open>What a log holds, apart from the sequences: its entries and positions, and the segments not yet given up.\<close>

definition segment_key :: "segment \<Rightarrow> nat \<times> (log_index \<times> log_index) option" where
  "segment_key sg = (sg_number sg, sg_index_range sg)"

definition live_keys :: "segment list \<Rightarrow> (nat \<times> (log_index \<times> log_index) option) list" where
  "live_keys segments = map segment_key (filter (\<lambda>sg. \<not> sg_discarded sg) segments)"

definition live_view :: "segmented_log \<Rightarrow> log_position \<times> log_entry list \<times> log_position \<times> (nat \<times> (log_index \<times> log_index) option) list" where
  "live_view s = (ml_prev (sl_memory_log s), map fst (ml_log (sl_memory_log s)), sl_last_position s, live_keys (sl_segments s))"

definition ends_live :: "segment list \<Rightarrow> bool" where
  "ends_live segments \<longleftrightarrow> segments \<noteq> [] \<and> \<not> sg_discarded (last segments)"

lemma ends_liveE:
  assumes "ends_live xs"
  obtains ys y where "xs = ys @ [y]" "\<not> sg_discarded y"
  using assms by (cases xs rule: rev_cases) (auto simp: ends_live_def)

lemma live_keys_simps [simp]:
  "live_keys [] = []" "live_keys (xs @ ys) = live_keys xs @ live_keys ys"
  "live_keys (sg # xs) = (if sg_discarded sg then [] else [segment_key sg]) @ live_keys xs"
  by (simp_all add: live_keys_def)

lemma ml_append_view:
  assumes "ml_prev l = ml_prev m" "map fst (ml_log l) = map fst (ml_log m)" "ml_append l e q = Some l'"
  shows "\<exists>m'. ml_append m e p = Some m' \<and> ml_prev l' = ml_prev m' \<and> map fst (ml_log l') = map fst (ml_log m')"
proof -
  have len: "length (ml_log l) = length (ml_log m)" using assms(2) by (metis length_map)
  have t: "map fst (take k (ml_log l)) = map fst (take k (ml_log m))" for k using assms(2) by (simp add: take_map [symmetric])
  show ?thesis
    using assms t by (auto simp: ml_append_def off_for_def ml_last_index_def len Let_def bind_eq_Some_conv split: if_splits)
qed

text \<open>Truncating leaves given up segments alone, so only the live ones matter.\<close>

definition of_key :: "nat \<times> (log_index \<times> log_index) option \<Rightarrow> segment" where
  "of_key key = (new_segment (fst key) None)\<lparr>sg_index_range := snd key\<rparr>"

lemma truncate_live:
  "live_keys (map (truncate_segment i) xs) = live_keys (map (truncate_segment i \<circ> of_key) (live_keys xs))"
  by (induction xs)
    (auto simp: truncate_segment_def discard_segment_def of_key_def new_segment_def segment_key_def split: option.splits)

lemma truncate_live_cong: "live_keys xs = live_keys ys \<Longrightarrow> live_keys (map (truncate_segment i) xs) = live_keys (map (truncate_segment i) ys)"
  by (simp add: truncate_live [of i xs] truncate_live [of i ys])

lemma extend_truncate_key:
  "segment_key a = segment_key b \<Longrightarrow> segment_key (extend_segment i a) = segment_key (extend_segment i b)"
  "segment_key a = segment_key b \<Longrightarrow>
     segment_key (extend_segment i (truncate_segment i a)) = segment_key (extend_segment i (truncate_segment i b))"
  by (auto simp: segment_key_def extend_segment_def truncate_segment_def discard_segment_def split: option.splits)

lemma extend_live [simp]: "\<not> sg_discarded (extend_segment i sg)"
  by (simp add: extend_segment_def)

lemma update_last_snoc [simp]: "update_last f (xs @ [x]) = Some (xs @ [f x])"
  by (simp add: update_last_def)

lemma append_in_memory_view:
  assumes view: "live_view s = live_view t" and "ends_live (sl_segments s)" "ends_live (sl_segments t)"
    and app: "append_in_memory e q s = Some s'"
  shows "\<exists>t'. append_in_memory e p t = Some t' \<and> live_view t' = live_view s'"
proof -
  let ?i = "pos_index (le_pos e)"
  from assms(2) obtain xs x where xs: "sl_segments s = xs @ [x]" "\<not> sg_discarded x" by (rule ends_liveE)
  from assms(3) obtain ys y where ys: "sl_segments t = ys @ [y]" "\<not> sg_discarded y" by (rule ends_liveE)
  from app obtain m where m: "ml_append (sl_memory_log s) e q = Some m"
    by (auto simp: append_in_memory_def bind_eq_Some_conv Let_def)
  from ml_append_view [OF _ _ m] view obtain m' where
    m': "ml_append (sl_memory_log t) e p = Some m'" "ml_prev m = ml_prev m'" "map fst (ml_log m) = map fst (ml_log m')"
    by (auto simp: live_view_def)
  have keys: "live_keys xs = live_keys ys" "segment_key x = segment_key y" "sl_last_position s = sl_last_position t"
    using view xs ys by (auto simp: live_view_def)
  show ?thesis
    using app m m' xs ys keys(3) truncate_live_cong [OF keys(1), of ?i] keys(1) extend_truncate_key [OF keys(2), of ?i]
    by (auto simp: append_in_memory_def live_view_def Let_def)
qed

lemma update_last_frame:
  "update_last f xs = Some ys \<Longrightarrow> (\<And>x. g (f x) = g x) \<Longrightarrow> map g ys = map g xs \<and> ys \<noteq> []"
  by (auto simp: update_last_def split: if_splits) (metis append_butlast_last_id list.simps(8,9) map_append)

lemma append_in_memory_frame:
  assumes "append_in_memory e q s = Some s'"
  shows "sl_dir s' = sl_dir s" "sl_last_flushed s' = sl_last_flushed s" "map sg_open (sl_segments s') = map sg_open (sl_segments s)"
    "map sg_number (sl_segments s') = map sg_number (sl_segments s)" "ends_live (sl_segments s')"
    "sl_last_position s' = le_pos e"
proof -
  let ?i = "pos_index (le_pos e)"
  let ?tr = "if ?i \<le> pos_index (sl_last_position s) then map (truncate_segment ?i) (sl_segments s) else sl_segments s"
  from assms obtain m segs where s: "update_last (extend_segment ?i) ?tr = Some segs"
    "s' = s\<lparr>sl_memory_log := m, sl_segments := segs, sl_last_position := le_pos e\<rparr>"
    by (auto simp: append_in_memory_def bind_eq_Some_conv Let_def)
  have tr: "map sg_open ?tr = map sg_open (sl_segments s)" "map sg_number ?tr = map sg_number (sl_segments s)"
    by (auto simp: truncate_segment_def discard_segment_def split: option.splits)
  show "sl_dir s' = sl_dir s" "sl_last_flushed s' = sl_last_flushed s" "sl_last_position s' = le_pos e" using s by simp_all
  show "map sg_open (sl_segments s') = map sg_open (sl_segments s)" "map sg_number (sl_segments s') = map sg_number (sl_segments s)"
    using update_last_frame [OF s(1), of sg_open] update_last_frame [OF s(1), of sg_number] tr s(2) by (simp_all add: extend_segment_def)
  show "ends_live (sl_segments s')" using s by (auto simp: update_last_def ends_live_def split: if_splits)
qed

section \<open>Reading files back\<close>

definition codec :: "record_serializer \<Rightarrow> record_parser \<Rightarrow> bool" where
  "codec serialize parse \<longleftrightarrow> (\<forall>rec. parse (serialize rec) = Some rec)"

text \<open>The entries of a file, applied in order.\<close>

fun replay :: "log_entry list \<Rightarrow> segmented_log \<Rightarrow> segmented_log option" where
  "replay [] s = Some s"
| "replay (e # es) s = append_in_memory e (next_sequence (sl_last_flushed s)) (s\<lparr>sl_last_flushed := next_sequence (sl_last_flushed s)\<rparr>) \<bind> replay es"

lemma read_all_NilD: "read_all r = Some (r', Inr []) \<Longrightarrow> rd_read r = Some (r', Inr None)"
  by (simp add: read_all.simps [of r] split: option.splits sum.splits prod.splits)
    (metis (no_types, lifting) id_apply list.distinct(1) map_sum.simps old.sum.exhaust sum.inject(2) sum.distinct(1))

lemma read_all_ConsD:
  assumes "read_all r = Some (r', Inr (d # ds))"
  obtains r1 where "rd_read r = Some (r1, Inr (Some d))" "read_all r1 = Some (r', Inr ds)"
proof -
  obtain r1 res where r1: "rd_read r = Some (r1, res)" using assms by (cases "rd_read r") (auto simp: read_all.simps [of r])
  then obtain data where d: "res = Inr (Some data)"
    using assms by (auto simp: read_all.simps [of r] split: sum.splits option.splits)
  then obtain r2 res2 where "read_all r1 = Some (r2, res2)" using assms r1 by (auto simp: read_all.simps [of r])
  then have "data = d" "read_all r1 = Some (r', Inr ds)"
    using assms r1 d by (cases res2; simp add: read_all.simps [of r])+
  with that r1 d show thesis by simp
qed

lemma open_body_replay:
  "codec serialize parse \<Longrightarrow> read_all r = Some (r', Inr (map (\<lambda>e. serialize (entry_record e)) es)) \<Longrightarrow>
   open_body parse r s = map_option (\<lambda>s'. Inr (s', r')) (replay es s)"
proof (induction es arbitrary: r s)
  case Nil
  then have "rd_read r = Some (r', Inr None)" by (simp add: read_all_NilD)
  then show ?case by (simp add: open_body.simps)
next
  case (Cons e es)
  let ?q = "next_sequence (sl_last_flushed s)"
  from Cons.prems(2) obtain r1 where r1: "rd_read r = Some (r1, Inr (Some (serialize (entry_record e))))"
    "read_all r1 = Some (r', Inr (map (\<lambda>e. serialize (entry_record e)) es))" by (auto elim: read_all_ConsD)
  have p: "parse (serialize (entry_record e)) = Some (entry_record e)" using Cons.prems(1) by (simp add: codec_def)
  show ?case
    using r1(1) p Cons.IH [OF Cons.prems(1) r1(2)]
    by (cases "append_in_memory e ?q (s\<lparr>sl_last_flushed := ?q\<rparr>)")
      (simp_all add: open_body.simps [of parse r] open_body_record_def entry_record_def Let_def)
qed

lemma replay_append: "replay (xs @ ys) s = replay xs s \<bind> replay ys"
proof (induction xs arbitrary: s)
  case (Cons e xs)
  let ?q = "next_sequence (sl_last_flushed s)"
  show ?case using Cons by (cases "append_in_memory e ?q (s\<lparr>sl_last_flushed := ?q\<rparr>)") simp_all
qed simp

definition segment_records :: "record_serializer \<Rightarrow> log_position \<Rightarrow> log_entry list \<Rightarrow> byte list list" where
  "segment_records serialize prev es = serialize (header_record prev) # map (\<lambda>e. serialize (entry_record e)) es"

lemma open_file_records:
  assumes "codec serialize parse" "read_all (record_reader_open content) = Some (r, Inr (segment_records serialize prev es))"
    and "open_header prev s = Some (Inr s1)"
  shows "open_file parse (n, content) (s, lr) =
    map_option (\<lambda>s2. Inr (s2, Some r)) (replay es (s1\<lparr>sl_segments := sl_segments s1 @ [new_segment n None]\<rparr>))"
proof -
  from assms(2) obtain r1 where r1: "rd_read (record_reader_open content) = Some (r1, Inr (Some (serialize (header_record prev))))"
    "read_all r1 = Some (r, Inr (map (\<lambda>e. serialize (entry_record e)) es))"
    by (auto simp: segment_records_def elim: read_all_ConsD)
  have "parse (serialize (header_record prev)) = Some (header_record prev)" using assms(1) by (simp add: codec_def)
  then show ?thesis
    using assms(3) r1(1) open_body_replay [OF assms(1) r1(2)]
    by (simp add: open_file_def header_record_def option.map_comp o_def)
qed

lemma read_all_torn:
  assumes "append_all records record_writer_new = Some w"
  obtains r w' where "read_all (record_reader_open (take n (rw_file w))) = Some (r, Inr (take (whole_records n record_writer_new records) records))"
    "append_all (take (whole_records n record_writer_new records) records) record_writer_new = Some w'" "into_writer True r = Some (Inr (Some w'))"
proof -
  have "reader_at (rw_extent record_writer_new) (record_reader_open (take n (rw_file w)))"
    using reader_at_open by (simp add: record_writer_new_def)
  then have "\<exists>r w'. read_all (record_reader_open (take n (rw_file w))) = Some (r, Inr (take (whole_records n record_writer_new records) records))
    \<and> append_all (take (whole_records n record_writer_new records) records) record_writer_new = Some w' \<and> into_writer True r = Some (Inr (Some w'))"
    by (intro read_all_prefix [OF new_writer_whole assms]) (simp_all add: record_reader_open_def record_writer_new_def)
  then show thesis using that by blast
qed

section \<open>What is on disk\<close>

lemma seg_scan_frame:
  assumes "flusher_round opts synced pending seq segs = (kept, dropped, num, seq')"
  shows "map segment_key kept = live_keys segs \<and> (\<forall>sg \<in> set kept. \<not> sg_discarded sg)
    \<and> (ends_live segs \<longrightarrow> kept \<noteq> [] \<and> map_option os_writer (sg_open (last kept)) = map_option os_writer (sg_open (last segs)))"
  using assms
proof (induction segs arbitrary: pending seq kept dropped num seq')
  case (Cons sg rest)
  show ?case
  proof (cases "sg_discarded sg \<or> sg_open sg = None")
    case True
    obtain kept' num' seq'' dropped' where r: "flusher_round opts synced pending seq rest = (kept', dropped', num', seq'')"
      by (cases "flusher_round opts synced pending seq rest") auto
    have "kept = (if sg_discarded sg then kept' else sg # kept')" using Cons.prems r True by (auto split: if_splits)
    with Cons.IH [OF r] True show ?thesis by (cases "rest = []") (auto simp: ends_live_def)
  next
    case False
    then obtain op where op: "\<not> sg_discarded sg" "sg_open sg = Some op" by auto
    obtain ends seq1 where p: "(if pending then (os_entry_end_offsets op, seq) else pop_flushed (synced (sg_number sg)) (os_entry_end_offsets op) seq) = (ends, seq1)"
      by (meson surj_pair)
    define close where "close \<longleftrightarrow> rest \<noteq> [] \<and> ends = []"
    obtain kept' num' seq'' dropped' where r: "flusher_round opts synced (pending \<or> \<not> close) seq1 rest = (kept', dropped', num', seq'')"
      by (cases "flusher_round opts synced (pending \<or> \<not> close) seq1 rest") auto
    have "kept = sg\<lparr>sg_open := (if close then None else Some (op\<lparr>os_entry_end_offsets := ends\<rparr>))\<rparr> # kept'"
      using Cons.prems r op by (simp add: p close_def Let_def)
    with Cons.IH [OF r] op show ?thesis by (cases "rest = []") (auto simp: ends_live_def segment_key_def close_def)
  qed
qed (simp add: ends_live_def)

lemma alist_ends:
  assumes "k \<notin> fst ` set fs"
  shows "AList.update k v fs = fs @ [(k, v)]" "AList.update k v (fs @ [(k, u)]) = fs @ [(k, v)]" "AList.delete k (fs @ [(k, u)]) = fs"
  using assms by (induction fs) (auto simp: AList.delete_eq)

lemma replay_frame:
  "replay es t = Some t' \<Longrightarrow> sl_dir t' = sl_dir t \<and> map sg_number (sl_segments t') = map sg_number (sl_segments t)
     \<and> (ends_live (sl_segments t) \<longrightarrow> ends_live (sl_segments t'))"
proof (induction es arbitrary: t)
  case (Cons e es)
  let ?q = "next_sequence (sl_last_flushed t)"
  from Cons.prems obtain t1 where t1: "append_in_memory e ?q (t\<lparr>sl_last_flushed := ?q\<rparr>) = Some t1" "replay es t1 = Some t'"
    by (auto simp: bind_eq_Some_conv)
  from Cons.IH [OF t1(2)] append_in_memory_frame [OF t1(1)] show ?case by simp
qed simp

definition push_segment :: "nat \<Rightarrow> segmented_log \<Rightarrow> segmented_log" where
  "push_segment n t = t\<lparr>sl_segments := sl_segments t @ [new_segment n None]\<rparr>"

lemma push_segment_sel [simp]:
  "ends_live (sl_segments (push_segment n t))" "sl_dir (push_segment n t) = sl_dir t" "map sg_number (sl_segments (push_segment n t)) = map sg_number (sl_segments t) @ [n]"
  "sl_last_position (push_segment n t) = sl_last_position t"
  by (simp_all add: push_segment_def ends_live_def new_segment_def)

text \<open>The files before the last one, as \<open>open\<close> reads them in the directory \<open>d\<close>.\<close>

definition closed :: "record_parser \<Rightarrow> log_directory \<Rightarrow> log_directory \<Rightarrow> segmented_log \<Rightarrow> record_reader option \<Rightarrow> bool" where
  "closed parse fs d t lr \<longleftrightarrow> open_files parse fs (empty_segmented_log d, None) = Some (Inr (t, lr)) \<and> sl_dir t = d
     \<and> (case lr of
          None \<Rightarrow> fs = []
        | Some r \<Rightarrow> fs \<noteq> [] \<and> ends_live (sl_segments t) \<and> sg_number (last (sl_segments t)) = fst (last fs)
            \<and> (\<exists>w. into_writer True r = Some (Inr (Some w)) \<and> rw_file w = snd (last fs)))"

text \<open>
  The directory holds the files \<open>fs\<close> and the file \<open>n\<close> with a header for \<open>prev\<close> and the entries \<open>es\<close>,
  and reading them gives the log that is in memory.
\<close>

definition stored :: "record_serializer \<Rightarrow> record_parser \<Rightarrow> segmented_log \<Rightarrow> log_directory \<Rightarrow> nat \<Rightarrow> log_position \<Rightarrow> log_entry list \<Rightarrow> record_writer \<Rightarrow> bool" where
  "stored serialize parse s fs n prev es w \<longleftrightarrow> sl_dir s = fs @ [(n, rw_file w)] \<and> sorted_wrt (<) (map fst fs @ [n])
     \<and> append_all (segment_records serialize prev es) record_writer_new = Some w
     \<and> ends_live (sl_segments s) \<and> sg_number (last (sl_segments s)) = n \<and> map_option os_writer (sg_open (last (sl_segments s))) = Some w
     \<and> (\<forall>d. \<exists>t0 lr t. closed parse fs d t0 lr \<and> pos_index (sl_last_position t0) = pos_index prev
            \<and> replay es (push_segment n t0) = Some t \<and> live_view t = live_view s)"

lemma open_files_append:
  "open_files parse (fs @ gs) st = (case open_files parse fs st of Some (Inr st1) \<Rightarrow> open_files parse gs st1 | err \<Rightarrow> err)"
  by (induction fs arbitrary: st) (auto split: option.splits sum.splits)

lemma stored_keys: "stored serialize parse s fs n prev es w \<Longrightarrow> n \<notin> fst ` set fs \<and> sorted (map fst fs @ [n])"
  by (auto simp: stored_def sorted_wrt_append intro: sorted_wrt_mono_rel [of _ "(<)"])

lemma stored_file_opens:
  assumes "codec serialize parse" "stored serialize parse s fs n prev es w"
    and "read_all (record_reader_open f) = Some (r, Inr (segment_records serialize prev es))"
  obtains t where "open_files parse (fs @ [(n, f)]) (empty_segmented_log d, None) = Some (Inr (t, Some r))" "live_view t = live_view s"
    "sl_dir t = d" "ends_live (sl_segments t)" "sg_number (last (sl_segments t)) = n"
proof -
  from assms(2) obtain t0 lr t where t: "closed parse fs d t0 lr" "pos_index (sl_last_position t0) = pos_index prev"
    "replay es (push_segment n t0) = Some t" "live_view t = live_view s" unfolding stored_def by meson
  have "open_header prev t0 = Some (Inr t0)" using t(2) by (simp add: open_header_def)
  from open_file_records [OF assms(1,3) this, of n lr] t(3)
  have "open_file parse (n, f) (t0, lr) = Some (Inr (t, Some r))" by (simp add: push_segment_def)
  then have "open_files parse (fs @ [(n, f)]) (empty_segmented_log d, None) = Some (Inr (t, Some r))"
    using t(1) by (simp add: open_files_append closed_def)
  moreover have "map sg_number (sl_segments t) = map sg_number (sl_segments t0) @ [n]" "sl_dir t = d" "ends_live (sl_segments t)"
    using replay_frame [OF t(3)] t(1) by (simp_all add: closed_def)
  moreover from this have "sg_number (last (sl_segments t)) = n" by (metis ends_live_def last_map snoc_eq_iff_butlast)
  ultimately show thesis using that t(4) by blast
qed

lemma read_all_written:
  assumes "append_all records record_writer_new = Some w"
  obtains r where "read_all (record_reader_open (rw_file w)) = Some (r, Inr records)" "into_writer True r = Some (Inr (Some w))"
proof -
  have "whole_records (length (rw_file w)) record_writer_new records = length records"
    by (rule whole_records_all [OF new_writer_whole assms order.refl])
  with read_all_torn [OF assms, of "length (rw_file w)"] assms that show thesis by (metis option.inject order.refl take_all)
qed

lemma stored_closes:
  assumes "codec serialize parse" "stored serialize parse s fs n prev es w"
  obtains t r where "closed parse (sl_dir s) d t (Some r)" "live_view t = live_view s"
proof -
  from assms(2) have "append_all (segment_records serialize prev es) record_writer_new = Some w" "sl_dir s = fs @ [(n, rw_file w)]"
    by (simp_all add: stored_def)
  from read_all_written [OF this(1)] obtain r where r: "read_all (record_reader_open (rw_file w)) = Some (r, Inr (segment_records serialize prev es))"
    "into_writer True r = Some (Inr (Some w))" by blast
  from stored_file_opens [OF assms r(1), of d] obtain t where
    "open_files parse (fs @ [(n, rw_file w)]) (empty_segmented_log d, None) = Some (Inr (t, Some r))" "live_view t = live_view s"
    "sl_dir t = d" "ends_live (sl_segments t)" "sg_number (last (sl_segments t)) = n" by blast
  with that r(2) \<open>sl_dir s = _\<close> show thesis by (simp add: closed_def)
qed

lemma sl_open_finish:
  assumes "sorted (map fst d)" "open_files parse d (empty_segmented_log d, None) = Some (Inr (t, Some r))"
    and "into_writer True r = Some (Inr (Some w))" "ends_live (sl_segments t)"
  shows "\<exists>t'. sl_open serialize parse d = Some (Inr t') \<and> live_view t' = live_view t
    \<and> sl_dir t' = AList.update (sg_number (last (sl_segments t))) (rw_file w) (sl_dir t)"
proof -
  from assms(4) obtain xs x where "sl_segments t = xs @ [x]" "\<not> sg_discarded x" by (rule ends_liveE)
  then show ?thesis
    using assms(2,3) by (simp add: sl_open_def sort_key_id_if_sorted [OF assms(1)] open_last_segment_def live_view_def segment_key_def)
qed

lemma stored_opens:
  assumes "codec serialize parse" "stored serialize parse s fs n prev es w"
    and "read_all (record_reader_open f) = Some (r, Inr (segment_records serialize prev es))" "into_writer True r = Some (Inr (Some w))"
  shows "\<exists>t. sl_open serialize parse (fs @ [(n, f)]) = Some (Inr t) \<and> live_view t = live_view s \<and> sl_dir t = sl_dir s"
proof -
  let ?d = "fs @ [(n, f)]"
  from stored_file_opens [OF assms(1-3), of ?d] obtain t where t: "open_files parse ?d (empty_segmented_log ?d, None) = Some (Inr (t, Some r))"
    "live_view t = live_view s" "sl_dir t = ?d" "ends_live (sl_segments t)" "sg_number (last (sl_segments t)) = n" by blast
  have k: "n \<notin> fst ` set fs" "sorted (map fst ?d)" using stored_keys [OF assms(2)] by simp_all
  from sl_open_finish [OF k(2) t(1) assms(4) t(4), of serialize] t alist_ends(2) [OF k(1)] assms(2) show ?thesis
    by (auto simp: stored_def)
qed

lemma stored_opens_without_header:
  assumes "codec serialize parse" "stored serialize parse s fs n prev es w" "n < n'"
    and "read_all (record_reader_open f) = Some (r', Inr [])"
  shows "\<exists>t. sl_open serialize parse (sl_dir s @ [(n', f)]) = Some (Inr t) \<and> live_view t = live_view s \<and> sl_dir t = sl_dir s"
proof -
  let ?d = "sl_dir s @ [(n', f)]"
  have dir: "sl_dir s = fs @ [(n, rw_file w)]" using assms(2) by (simp add: stored_def)
  have k: "n' \<notin> fst ` set (sl_dir s)" "sorted (map fst ?d)" "n \<notin> fst ` set fs"
    using stored_keys [OF assms(2)] assms(3) dir by (auto simp: sorted_append)
  from stored_closes [OF assms(1,2), of ?d] obtain t r where t: "closed parse (sl_dir s) ?d t (Some r)" "live_view t = live_view s" by blast
  from t(1) obtain v where v: "into_writer True r = Some (Inr (Some v))" "rw_file v = rw_file w" "ends_live (sl_segments t)"
    "sg_number (last (sl_segments t)) = n" "sl_dir t = ?d" using dir by (auto simp: closed_def)
  have "open_file parse (n', f) (t, Some r) = Some (Inr (t\<lparr>sl_dir := sl_dir s\<rparr>, Some r))"
    using read_all_NilD [OF assms(4)] v(5) alist_ends(3) [OF k(1)] by (simp add: open_file_def)
  then have "open_files parse ?d (empty_segmented_log ?d, None) = Some (Inr (t\<lparr>sl_dir := sl_dir s\<rparr>, Some r))"
    using t(1) by (simp add: open_files_append closed_def)
  from sl_open_finish [OF k(2) this v(1), of serialize] v t(2) alist_ends(2) [OF k(3)] dir show ?thesis
    by (auto simp: live_view_def)
qed

section \<open>Every operation keeps the log on disk\<close>

lemma append_all_snoc: "append_all (ds @ [d]) w = append_all ds w \<bind> rw_append d"
proof (induction ds arbitrary: w)
  case Nil
  show ?case by (cases "rw_append d w") simp_all
next
  case (Cons a ds)
  then show ?case by (cases "rw_append a w") simp_all
qed

lemma stored_append:
  assumes "stored serialize parse s fs n prev es w" "sl_append serialize e q s = Some s'"
  obtains w' where "rw_append (serialize (entry_record e)) w = Some w'" "stored serialize parse s' fs n prev (es @ [e]) w'"
proof -
  from assms(2) obtain s1 op w' where s1: "append_in_memory e q s = Some s1" "sg_open (last (sl_segments s1)) = Some op"
    "rw_append (serialize (entry_record e)) (os_writer op) = Some w'"
    and s': "s' = s1\<lparr>sl_segments := butlast (sl_segments s1) @ [(last (sl_segments s1))\<lparr>sg_open := Some \<lparr>os_writer = w', os_entry_end_offsets = os_entry_end_offsets op @ [(q, rw_current_size w')]\<rparr>\<rparr>],
        sl_dir := AList.update (sg_number (last (sl_segments s1))) (rw_file w') (sl_dir s1)\<rparr>"
    by (auto simp: sl_append_def bind_eq_Some_conv Let_def)
  note frame = append_in_memory_frame [OF s1(1)]
  have st: "sl_dir s = fs @ [(n, rw_file w)]" "append_all (segment_records serialize prev es) record_writer_new = Some w"
    "ends_live (sl_segments s)" "sg_number (last (sl_segments s)) = n" "map_option os_writer (sg_open (last (sl_segments s))) = Some w"
    "sorted_wrt (<) (map fst fs @ [n])"
    using assms(1) by (simp_all add: stored_def)
  have last: "sg_number (last (sl_segments s1)) = n" "sg_open (last (sl_segments s1)) = sg_open (last (sl_segments s))"
    using frame(3,4,5) st(3,4) by (metis ends_live_def last_map map_is_Nil_conv)+
  with s1(2) st(5) have w: "os_writer op = w" by auto
  from frame(5) obtain xs x where xs: "sl_segments s1 = xs @ [x]" "\<not> sg_discarded x" by (rule ends_liveE)
  have view: "live_view s' = live_view s1" using s' xs by (simp add: live_view_def segment_key_def)
  have "\<exists>t0 lr t. closed parse fs d t0 lr \<and> pos_index (sl_last_position t0) = pos_index prev
    \<and> replay (es @ [e]) (push_segment n t0) = Some t \<and> live_view t = live_view s'" for d
  proof -
    from assms(1) obtain t0 lr t where t: "closed parse fs d t0 lr" "pos_index (sl_last_position t0) = pos_index prev"
      "replay es (push_segment n t0) = Some t" "live_view t = live_view s" unfolding stored_def by meson
    let ?t = "t\<lparr>sl_last_flushed := next_sequence (sl_last_flushed t)\<rparr>"
    have "live_view s = live_view ?t" "ends_live (sl_segments ?t)" using t(4) replay_frame [OF t(3)] by (simp_all add: live_view_def)
    from append_in_memory_view [OF this(1) st(3) this(2) s1(1), of "next_sequence (sl_last_flushed t)"] view t show ?thesis
      by (auto simp: replay_append)
  qed
  moreover have "sl_dir s' = fs @ [(n, rw_file w')]"
    using s' last(1) frame(1) st(1) alist_ends(2) [of n fs] stored_keys [OF assms(1)] by simp
  moreover have "append_all (segment_records serialize prev (es @ [e])) record_writer_new = Some w'"
    using st(2) s1(3) w append_all_snoc by (simp add: segment_records_def flip: append_Cons)
  ultimately have "stored serialize parse s' fs n prev (es @ [e]) w'"
    using s' last(1) xs st(6) by (simp add: stored_def ends_live_def)
  with that s1(3) w show thesis by simp
qed

lemma stored_roll:
  assumes "codec serialize parse" "stored serialize parse s fs n prev es w" "flusher_create serialize (n + 1) s = Some (Inr s')"
  obtains w' where "rw_append (serialize (header_record (sl_last_position s))) record_writer_new = Some w'"
    "stored serialize parse s' (sl_dir s) (n + 1) (sl_last_position s) [] w'"
proof -
  have dir: "sl_dir s = fs @ [(n, rw_file w)]" "sorted_wrt (<) (map fst fs @ [n])" "ends_live (sl_segments s)"
    using assms(2) by (simp_all add: stored_def)
  then have k: "n + 1 \<notin> fst ` set (sl_dir s)" "sorted_wrt (<) (map fst (sl_dir s) @ [n + 1])"
    by (auto simp: sorted_wrt_append)
  from assms(3) obtain w' where w': "rw_append (serialize (header_record (sl_last_position s))) record_writer_new = Some w'"
    and s': "s' = s\<lparr>sl_dir := sl_dir s @ [(n + 1, rw_file w')],
      sl_segments := sl_segments s @ [new_segment (n + 1) (Some \<lparr>os_writer = w', os_entry_end_offsets = []\<rparr>)]\<rparr>"
    using alist_ends(1) [OF k(1)]
    by (cases "rw_append (serialize (header_record (sl_last_position s))) record_writer_new")
      (auto simp: flusher_create_def create_new_segment_def create_file_def split: if_splits)
  have "\<exists>t0 lr t. closed parse (sl_dir s) d t0 lr \<and> pos_index (sl_last_position t0) = pos_index (sl_last_position s)
    \<and> replay [] (push_segment (n + 1) t0) = Some t \<and> live_view t = live_view s'" for d
  proof -
    from stored_closes [OF assms(1,2), of d] obtain t r where t: "closed parse (sl_dir s) d t (Some r)" "live_view t = live_view s" by blast
    then show ?thesis
      by (intro exI [of _ t] exI [of _ "Some r"] exI [of _ "push_segment (n + 1) t"])
        (simp add: s' live_view_def push_segment_def new_segment_def segment_key_def)
  qed
  then have "stored serialize parse s' (sl_dir s) (n + 1) (sl_last_position s) [] w'"
    using s' w' k by (simp add: stored_def segment_records_def ends_live_def new_segment_def)
  with that w' show thesis by blast
qed

lemma stored_scan:
  assumes "stored serialize parse s fs n prev es w"
  shows "stored serialize parse (fst (flusher_scan opts synced s)) fs n prev es w \<and> live_view (fst (flusher_scan opts synced s)) = live_view s"
proof -
  obtain kept dropped num seq where r: "flusher_round opts synced False (sl_last_flushed s) (sl_segments s) = (kept, dropped, num, seq)"
    by (meson prod_cases4)
  have st: "ends_live (sl_segments s)" "sg_number (last (sl_segments s)) = n" using assms by (simp_all add: stored_def)
  note kept = seg_scan_frame [OF r]
  then have view: "live_view (fst (flusher_scan opts synced s)) = live_view s"
    by (simp add: flusher_scan_def r live_view_def live_keys_def filter_id_conv)
  have live: "kept \<noteq> []" "\<not> sg_discarded (last kept)" using kept st(1) by auto
  from st(1) obtain xs x where xs: "sl_segments s = xs @ [x]" "\<not> sg_discarded x" by (rule ends_liveE)
  have "segment_key (last kept) = segment_key x" using arg_cong [of _ _ last, OF kept [THEN conjunct1]] xs live(1)
    by (simp add: last_map)
  with st(2) xs have "sg_number (last kept) = n" by (simp add: segment_key_def)
  then show ?thesis
    using assms kept live view by (auto simp: stored_def flusher_scan_def r ends_live_def)
qed

section \<open>A crash that cuts off the last file\<close>

definition cut_last :: "nat \<Rightarrow> log_directory \<Rightarrow> log_directory" where
  "cut_last k dir = butlast dir @ [(fst (last dir), take k (snd (last dir)))]"

text \<open>Whether all bytes of a directory are still there after the crash.\<close>

definition survives :: "log_directory \<Rightarrow> log_directory \<Rightarrow> bool" where
  "survives crashed dir \<longleftrightarrow> list_all (\<lambda>(n, f). case map_of crashed n of Some g \<Rightarrow> take (length f) g = f | None \<Rightarrow> False) dir"

text \<open>Opening the crashed directory gives the log after the longest run of operations whose bytes are all there.\<close>

definition recovers :: "record_serializer \<Rightarrow> record_parser \<Rightarrow> segmented_log \<Rightarrow> segment_op list \<Rightarrow> log_directory \<Rightarrow> bool" where
  "recovers serialize parse s0 ops crashed \<longleftrightarrow> (\<exists>ops' rest s' t. ops = ops' @ rest \<and> seg_run serialize ops' s0 = Some (Inr s')
     \<and> sl_open serialize parse crashed = Some (Inr t) \<and> live_view t = live_view s' \<and> sl_dir t = sl_dir s'
     \<and> (\<forall>ops1 ops2 s1. ops = ops1 @ ops2 \<and> seg_run serialize ops1 s0 = Some (Inr s1) \<and> survives crashed (sl_dir s1) \<longrightarrow> length ops1 \<le> length ops'))"

lemma recovers_now:
  assumes "seg_run serialize ops s0 = Some (Inr s)"
    and "\<exists>t. sl_open serialize parse crashed = Some (Inr t) \<and> live_view t = live_view s \<and> sl_dir t = sl_dir s"
  shows "recovers serialize parse s0 ops crashed"
  unfolding recovers_def using assms by (intro exI [of _ ops] exI [of _ "[]"]) auto

lemma recovers_step:
  assumes "recovers serialize parse s0 ops crashed" "seg_run serialize (ops @ [op]) s0 = Some (Inr s')" "\<not> survives crashed (sl_dir s')"
  shows "recovers serialize parse s0 (ops @ [op]) crashed"
proof -
  from assms(1) obtain ops' rest s1 t where r: "ops = ops' @ rest" "seg_run serialize ops' s0 = Some (Inr s1)"
    "sl_open serialize parse crashed = Some (Inr t)" "live_view t = live_view s1" "sl_dir t = sl_dir s1"
    and longest: "\<And>ops1 ops2 s1. ops = ops1 @ ops2 \<Longrightarrow> seg_run serialize ops1 s0 = Some (Inr s1) \<Longrightarrow> survives crashed (sl_dir s1) \<Longrightarrow> length ops1 \<le> length ops'"
    unfolding recovers_def by blast
  have "length ops1 \<le> length ops'" if "ops @ [op] = ops1 @ ops2" "seg_run serialize ops1 s0 = Some (Inr s2)" "survives crashed (sl_dir s2)" for ops1 ops2 s2
  proof (cases ops2 rule: rev_cases)
    case Nil
    with that assms(2,3) show ?thesis by simp
  next
    case (snoc ys y)
    with that longest show ?thesis by simp
  qed
  with r show ?thesis unfolding recovers_def by (intro exI [of _ ops'] exI [of _ "rest @ [op]"] exI [of _ s1] exI [of _ t]) simp
qed

lemma not_survives:
  assumes "n \<notin> fst ` set fs" "k < length f"
  shows "\<not> survives (fs @ [(n, take k f)]) (gs @ [(n, f)])"
proof -
  have "map_of (fs @ [(n, take k f)]) n = Some (take k f)" using assms(1) map_of_eq_None_iff [of fs n] by (simp add: map_add_def)
  moreover have "take (length f) (take k f) \<noteq> f" using assms(2) arg_cong [of "take (length f) (take k f)" f length] by auto
  ultimately show ?thesis by (simp add: survives_def)
qed

lemma whole_records_snoc:
  assumes "rw_extent w0 = length (rw_file w0)" "append_all ds w0 = Some w" "rw_append d w = Some w'" "length (rw_file w) \<le> k" "k < rw_extent w'"
  shows "whole_records k w0 (ds @ [d]) = length ds"
  using assms
proof (induction ds arbitrary: w0)
  case (Cons a ds)
  from rw_append_total [OF Cons.prems(1), of a] obtain bytes where
    b: "rw_append a w0 = Some (write_all bytes w0)" "rw_extent (write_all bytes w0) = length (rw_file (write_all bytes w0))" by blast
  with Cons.prems(2) have rest: "append_all ds (write_all bytes w0) = Some w" by simp
  with append_all_total [OF b(2), of ds] b(2) have "rw_extent (write_all bytes w0) \<le> length (rw_file w)" by auto
  with Cons.IH [OF b(2) rest Cons.prems(3-5)] Cons.prems(4) b(1) show ?case by simp
qed simp

lemma written_extent:
  assumes "append_all records record_writer_new = Some w"
  shows "rw_extent w = length (rw_file w)"
  using append_all_total [OF new_writer_whole, of records] assms by auto

lemma rw_append_grows:
  assumes "rw_extent w = length (rw_file w)" "rw_append d w = Some w'"
  shows "\<exists>bytes. rw_file w' = rw_file w @ bytes" "rw_extent w' = length (rw_file w')"
  using rw_append_total [OF assms(1), of d] assms by (metis option.inject write_all_sel)+

lemma read_all_unfinished:
  assumes "append_all ds record_writer_new = Some w" "rw_append d w = Some w'" "length (rw_file w) \<le> k" "k < length (rw_file w')"
  obtains r where "read_all (record_reader_open (take k (rw_file w'))) = Some (r, Inr ds)" "into_writer True r = Some (Inr (Some w))"
proof -
  have e: "rw_extent w' = length (rw_file w')" by (rule rw_append_grows(2) [OF written_extent [OF assms(1)] assms(2)])
  have "append_all (ds @ [d]) record_writer_new = Some w'" using assms(1,2) by (simp add: append_all_snoc)
  from read_all_torn [OF this, of k] whole_records_snoc [OF new_writer_whole assms(1,2,3), unfolded e] assms(1,4) that
  show thesis by (metis append_eq_conv_conj option.inject)
qed

lemma stored_recovers:
  assumes "codec serialize parse" "stored serialize parse s fs n prev es w" "seg_run serialize ops s0 = Some (Inr s)" "length (rw_file w) \<le> k"
  shows "recovers serialize parse s0 ops (cut_last k (sl_dir s))"
proof -
  have st: "append_all (segment_records serialize prev es) record_writer_new = Some w" "sl_dir s = fs @ [(n, rw_file w)]"
    using assms(2) by (simp_all add: stored_def)
  from read_all_written [OF st(1)] obtain r where "read_all (record_reader_open (rw_file w)) = Some (r, Inr (segment_records serialize prev es))"
    "into_writer True r = Some (Inr (Some w))" by blast
  from recovers_now [OF assms(3) stored_opens [OF assms(1,2) this]] assms(4) st(2) show ?thesis by (simp add: cut_last_def)
qed

lemma stored_init:
  assumes "sl_open serialize parse [] = Some (Inr s0)"
  obtains w where "rw_append (serialize (header_record zero_position)) record_writer_new = Some w" "stored serialize parse s0 [] 1 zero_position [] w"
proof -
  from assms obtain w where w: "rw_append (serialize (header_record zero_position)) record_writer_new = Some w"
    and s0: "s0 = (empty_segmented_log [(1, rw_file w)])\<lparr>sl_segments := [(new_segment 1 None)\<lparr>sg_open := Some \<lparr>os_writer = w, os_entry_end_offsets = []\<rparr>\<rparr>]\<rparr>"
    by (cases "rw_append (serialize (header_record zero_position)) record_writer_new")
      (auto simp: sl_open_def create_file_def empty_segmented_log_def open_last_segment_def update_last_def new_segment_def)
  have "stored serialize parse s0 [] 1 zero_position [] w"
    by (simp add: stored_def s0 w closed_def segment_records_def ends_live_def new_segment_def empty_segmented_log_def push_segment_def live_view_def segment_key_def)
  with that w show thesis by blast
qed

lemma init_recovers:
  assumes "sl_open serialize parse [] = Some (Inr s0)"
    and "rw_append (serialize (header_record zero_position)) record_writer_new = Some w" "k < length (rw_file w)"
  shows "sl_open serialize parse [(1, take k (rw_file w))] = Some (Inr s0)"
proof -
  have "append_all [] record_writer_new = Some record_writer_new" by simp
  from read_all_unfinished [OF this assms(2) _ assms(3)] obtain r where
    "read_all (record_reader_open (take k (rw_file w))) = Some (r, Inr [])" by (auto simp: record_writer_new_def)
  from read_all_NilD [OF this] show ?thesis using assms(1)
    by (simp add: sl_open_def open_file_def empty_segmented_log_def AList.delete_eq)
qed

lemma append_recovers:
  assumes c: "codec serialize parse" and st: "stored serialize parse s fs n prev es w" and run: "seg_run serialize ops s0 = Some (Inr s)"
    and app: "sl_append serialize e q s = Some s'" and IH: "\<And>k. recovers serialize parse s0 ops (cut_last k (sl_dir s))"
  shows "recovers serialize parse s0 (ops @ [Seg_append e q]) (cut_last k (sl_dir s'))"
proof -
  from stored_append [OF st app] obtain w' where w': "rw_append (serialize (entry_record e)) w = Some w'" "stored serialize parse s' fs n prev (es @ [e]) w'" by blast
  have run': "seg_run serialize (ops @ [Seg_append e q]) s0 = Some (Inr s')" using run app by (simp add: seg_run_append seg_step_def)
  have w: "append_all (segment_records serialize prev es) record_writer_new = Some w" "sl_dir s = fs @ [(n, rw_file w)]"
    using st by (simp_all add: stored_def)
  have d': "sl_dir s' = fs @ [(n, rw_file w')]" using w'(2) by (simp add: stored_def)
  from rw_append_grows(1) [OF written_extent [OF w(1)] w'(1)] obtain bytes where b: "rw_file w' = rw_file w @ bytes" by blast
  consider "length (rw_file w') \<le> k" | "k < length (rw_file w')" "length (rw_file w) \<le> k" | "k < length (rw_file w')" "k < length (rw_file w)" by linarith
  then show ?thesis
  proof cases
    case 1
    with stored_recovers [OF c w'(2) run'] show ?thesis by blast
  next
    case 2
    from read_all_unfinished [OF w(1) w'(1) 2(2,1)] obtain r where
      "read_all (record_reader_open (take k (rw_file w'))) = Some (r, Inr (segment_records serialize prev es))" "into_writer True r = Some (Inr (Some w))" by blast
    from recovers_now [OF run stored_opens [OF c st this]] show ?thesis
      using recovers_step [OF _ run'] not_survives [OF _ 2(1)] stored_keys [OF st] by (simp add: cut_last_def d')
  next
    case 3
    then have "cut_last k (sl_dir s') = cut_last k (sl_dir s)" by (simp add: cut_last_def d' w(2) b)
    with IH [of k] show ?thesis
      using recovers_step [OF _ run'] not_survives [OF _ 3(1)] stored_keys [OF st] by (simp add: cut_last_def d')
  qed
qed

lemma roll_recovers:
  assumes c: "codec serialize parse" and st: "stored serialize parse s fs n prev es w" and run: "seg_run serialize ops s0 = Some (Inr s)"
    and create: "flusher_create serialize (n + 1) s = Some (Inr s')"
  shows "recovers serialize parse s0 (ops @ [Seg_roll]) (cut_last k (sl_dir s'))"
proof -
  from stored_roll [OF c st create] obtain w' where w': "rw_append (serialize (header_record (sl_last_position s))) record_writer_new = Some w'"
    "stored serialize parse s' (sl_dir s) (n + 1) (sl_last_position s) [] w'" by blast
  have "sg_number (last (sl_segments s)) = n" using st by (simp add: stored_def)
  then have run': "seg_run serialize (ops @ [Seg_roll]) s0 = Some (Inr s')" using run create by (simp add: seg_run_append seg_step_def)
  have d': "sl_dir s' = sl_dir s @ [(n + 1, rw_file w')]" using w'(2) by (simp add: stored_def)
  show ?thesis
  proof (cases "length (rw_file w') \<le> k")
    case True
    with stored_recovers [OF c w'(2) run'] show ?thesis by blast
  next
    case False
    have "append_all [] record_writer_new = Some record_writer_new" by simp
    from read_all_unfinished [OF this w'(1)] False obtain r where
      "read_all (record_reader_open (take k (rw_file w'))) = Some (r, Inr [])" by (auto simp: record_writer_new_def not_le)
    from recovers_now [OF run stored_opens_without_header [OF c st _ this, of "n + 1"]] show ?thesis
      using recovers_step [OF _ run'] not_survives [of "n + 1" "sl_dir s" k "rw_file w'"] stored_keys [OF w'(2)] False by (simp add: cut_last_def d')
  qed
qed

lemma scan_recovers:
  assumes c: "codec serialize parse" and st: "stored serialize parse s fs n prev es w" and run: "seg_run serialize ops s0 = Some (Inr s)"
    and s': "s' = fst (flusher_scan opts synced s)" and IH: "\<And>k. recovers serialize parse s0 ops (cut_last k (sl_dir s))"
  shows "recovers serialize parse s0 (ops @ [Seg_scan opts synced]) (cut_last k (sl_dir s'))"
proof -
  have st': "stored serialize parse s' fs n prev es w" using stored_scan [OF st] s' by blast
  have run': "seg_run serialize (ops @ [Seg_scan opts synced]) s0 = Some (Inr s')" using run s' by (simp add: seg_run_append seg_step_def)
  have d: "sl_dir s = fs @ [(n, rw_file w)]" "sl_dir s' = fs @ [(n, rw_file w)]" using st st' by (simp_all add: stored_def)
  show ?thesis
  proof (cases "length (rw_file w) \<le> k")
    case True
    with stored_recovers [OF c st' run'] show ?thesis by blast
  next
    case False
    with IH [of k] show ?thesis
      using recovers_step [OF _ run'] not_survives [of n fs k "rw_file w"] stored_keys [OF st] by (simp add: cut_last_def d)
  qed
qed

lemma run_recovers:
  assumes c: "codec serialize parse" and init: "sl_open serialize parse [] = Some (Inr s0)"
  shows "seg_run serialize ops s0 = Some (Inr s) \<Longrightarrow>
    (\<exists>fs n prev es w. stored serialize parse s fs n prev es w) \<and> (\<forall>k. recovers serialize parse s0 ops (cut_last k (sl_dir s)))"
proof (induction ops arbitrary: s rule: rev_induct)
  case Nil
  from stored_init [OF init] obtain w where w: "rw_append (serialize (header_record zero_position)) record_writer_new = Some w"
    "stored serialize parse s0 [] 1 zero_position [] w" by blast
  then have d: "sl_dir s0 = [(1, rw_file w)]" by (simp add: stored_def)
  have "recovers serialize parse s0 [] (cut_last k (sl_dir s0))" for k
  proof (cases "length (rw_file w) \<le> k")
    case True
    with stored_recovers [OF c w(2), of "[]"] show ?thesis by simp
  next
    case False
    then have "cut_last k (sl_dir s0) = [(1, take k (rw_file w))]" "k < length (rw_file w)" by (simp_all add: cut_last_def d)
    with init_recovers [OF init w(1), of k] show ?thesis by (intro recovers_now [of serialize "[]" s0 s0]) auto
  qed
  moreover have "s = s0" using Nil by simp
  ultimately show ?case using w(2) by blast
next
  case (snoc op ops)
  from snoc.prems obtain s1 where s1: "seg_run serialize ops s0 = Some (Inr s1)" "seg_step serialize op s1 = Some (Inr s)" by (rule seg_run_snocE)
  from snoc.IH [OF s1(1)] obtain fs n prev es w where st: "stored serialize parse s1 fs n prev es w"
    and IH: "\<And>k. recovers serialize parse s0 ops (cut_last k (sl_dir s1))" by blast
  show ?case
  proof (cases op)
    case (Seg_append e q)
    then have app: "sl_append serialize e q s1 = Some s" using s1(2) by (simp add: seg_step_def)
    from stored_append [OF st app] obtain w' where "stored serialize parse s fs n prev (es @ [e]) w'" .
    with append_recovers [OF c st s1(1) app IH] Seg_append show ?thesis by metis
  next
    case Seg_roll
    then have create: "flusher_create serialize (n + 1) s1 = Some (Inr s)" using s1(2) st by (simp add: seg_step_def stored_def)
    from stored_roll [OF c st create] obtain w' where "stored serialize parse s (sl_dir s1) (n + 1) (sl_last_position s1) [] w'" .
    with roll_recovers [OF c st s1(1) create] Seg_roll show ?thesis by metis
  next
    case (Seg_scan opts synced)
    then have s: "s = fst (flusher_scan opts synced s1)" using s1(2) by (simp add: seg_step_def)
    with stored_scan [OF st] have "stored serialize parse s fs n prev es w" by simp
    with scan_recovers [OF c st s1(1) s IH] Seg_scan show ?thesis by metis
  qed
qed

section \<open>An example encoding\<close>

text \<open>An encoding that meets \<open>codec\<close>: numbers in unary, a number for each choice.\<close>

definition put_nat :: "nat \<Rightarrow> byte list" where
  "put_nat n = replicate n 1 @ [0]"

fun get_nat :: "byte list \<Rightarrow> (nat \<times> byte list) option" where
  "get_nat [] = None"
| "get_nat (b # bs) = (if b = 0 then Some (0, bs) else map_option (apfst Suc) (get_nat bs))"

lemma get_put_nat [simp]: "get_nat (put_nat n @ bs) = Some (n, bs)"
  by (induction n) (simp_all add: put_nat_def)

fun put_data :: "log_entry_data \<Rightarrow> byte list" where
  "put_data (Noop b) = put_nat 0 @ put_nat (of_bool b)"
| "put_data (Config (AddMember i)) = put_nat 1 @ put_nat i"
| "put_data (Config (AddLearner i)) = put_nat 2 @ put_nat i"
| "put_data (Config (RemoveServer i)) = put_nat 3 @ put_nat i"
| "put_data (Config (AddAspiring i)) = put_nat 4 @ put_nat i"
| "put_data (Config ConfigChange_NOT_SET) = put_nat 5 @ put_nat 0"
| "put_data (Command bs) = put_nat 6 @ put_nat 0 @ bs"
| "put_data LogEntryData_NOT_SET = put_nat 7 @ put_nat 0"

definition get_data :: "byte list \<Rightarrow> log_entry_data option" where
  "get_data bs0 = do {
     (choice, bs1) \<leftarrow> get_nat bs0;
     (i, bs2) \<leftarrow> get_nat bs1;
     Some ([Noop (i = 1), Config (AddMember i), Config (AddLearner i), Config (RemoveServer i), Config (AddAspiring i),
       Config ConfigChange_NOT_SET, Command bs2, LogEntryData_NOT_SET] ! choice)
   }"

lemma get_put_data [simp]: "get_data (put_data x) = Some x"
proof -
  have zero: "get_nat (put_nat i) = Some (i, [])" for i using get_put_nat [of i "[]"] by simp
  show ?thesis by (cases x rule: put_data.cases) (simp_all add: get_data_def zero nth_Cons')
qed

definition put_position :: "log_position \<Rightarrow> byte list" where
  "put_position p = put_nat (pos_term p) @ put_nat (pos_index p)"

definition get_position :: "byte list \<Rightarrow> (log_position \<times> byte list) option" where
  "get_position bs0 = do { (t, bs1) \<leftarrow> get_nat bs0; (i, bs2) \<leftarrow> get_nat bs1; Some (new_position t i, bs2) }"

lemma get_put_position [simp]: "get_position (put_position p @ bs) = Some (p, bs)"
  by (simp add: get_position_def put_position_def new_position_def)

definition put_option :: "('a \<Rightarrow> byte list) \<Rightarrow> 'a option \<Rightarrow> byte list" where
  "put_option f x = (case x of None \<Rightarrow> [0] | Some y \<Rightarrow> 1 # f y)"

definition put_entry :: "log_entry option \<Rightarrow> byte list" where
  "put_entry x = put_option (\<lambda>e. put_position (le_pos e) @ put_data (le_data e)) x"

definition sample_serialize :: record_serializer where
  "sample_serialize rec = put_option put_position (lr_prev rec) @ put_entry (lr_entry rec)"

definition get_entry :: "byte list \<Rightarrow> log_entry option option" where
  "get_entry bs0 = (case bs0 of
      b # bs1 \<Rightarrow> if b = 0 then Some None else do { (p, bs2) \<leftarrow> get_position bs1; d \<leftarrow> get_data bs2; Some (Some \<lparr>le_pos = p, le_data = d\<rparr>) }
    | [] \<Rightarrow> None)"

definition sample_parse :: record_parser where
  "sample_parse bs0 = (case bs0 of
      b # bs1 \<Rightarrow>
        if b = 0 then map_option (\<lambda>e. \<lparr>lr_prev = None, lr_entry = e\<rparr>) (get_entry bs1)
        else do { (p, bs2) \<leftarrow> get_position bs1; e \<leftarrow> get_entry bs2; Some \<lparr>lr_prev = Some p, lr_entry = e\<rparr> }
    | [] \<Rightarrow> None)"

lemma sample_codec: "codec sample_serialize sample_parse"
proof -
  have e: "get_entry (put_entry x) = Some x" for x :: "log_entry option"
    by (cases x) (simp_all add: get_entry_def put_entry_def put_option_def)
  have "sample_parse (sample_serialize rec) = Some rec" for rec
    by (cases rec, cases "lr_prev rec") (simp_all add: sample_parse_def sample_serialize_def put_option_def e)
  then show ?thesis by (simp add: codec_def)
qed

section \<open>Example runs\<close>

definition noop_entry :: "raft_term \<Rightarrow> log_index \<Rightarrow> log_entry" where
  "noop_entry t i = \<lparr>le_pos = new_position t i, le_data = Noop True\<rparr>"

lemma noop_entry_sel [simp]: "le_pos (noop_entry t i) = new_position t i"
  by (simp add: noop_entry_def)

text \<open>A log in memory, and the writer of its last file: what decides the outcome of the next operation.\<close>

definition log_at :: "segmented_log \<Rightarrow> log_entry list \<Rightarrow> segment list \<Rightarrow> nat \<Rightarrow> (log_index \<times> log_index) option \<Rightarrow> log_directory \<Rightarrow> record_writer \<Rightarrow> bool" where
  "log_at s entries segments n rng fs w \<longleftrightarrow> ml_prev (sl_memory_log s) = zero_position \<and> map fst (ml_log (sl_memory_log s)) = entries
     \<and> (\<exists>ends. sl_segments s = segments @ [\<lparr>sg_number = n, sg_index_range = rng, sg_open = Some \<lparr>os_writer = w, os_entry_end_offsets = ends\<rparr>, sg_discarded = False\<rparr>])
     \<and> sl_last_position s = (if entries = [] then zero_position else le_pos (last entries)) \<and> sl_dir s = fs @ [(n, rw_file w)] \<and> n \<notin> fst ` set fs"

lemma new_log_at:
  obtains s0 w where "sl_open serialize parse [] = Some (Inr s0)" "append_all [serialize (header_record zero_position)] record_writer_new = Some w"
    "log_at s0 [] [] 1 None [] w"
proof -
  from rw_append_total [OF new_writer_whole, of "serialize (header_record zero_position)"] obtain w where
    w: "rw_append (serialize (header_record zero_position)) record_writer_new = Some w" by blast
  let ?s = "(empty_segmented_log [(1, rw_file w)])\<lparr>sl_segments := [(new_segment 1 None)\<lparr>sg_open := Some \<lparr>os_writer = w, os_entry_end_offsets = []\<rparr>\<rparr>]\<rparr>"
  have "sl_open serialize parse [] = Some (Inr ?s)"
    using w by (simp add: sl_open_def create_file_def empty_segmented_log_def open_last_segment_def update_last_def new_segment_def)
  moreover have "log_at ?s [] [] 1 None [] w" by (simp add: log_at_def empty_segmented_log_def ml_new_def new_segment_def)
  ultimately show thesis using that w by simp
qed

lemma append_log_at:
  assumes "log_at s entries segments n rng fs w" "append_all records record_writer_new = Some w" "pos_index (le_pos e) = length entries + 1"
    and "map (pos_index \<circ> le_pos) entries = [1..<length entries + 1]"
  obtains s' w' where "seg_step serialize (Seg_append e q) s = Some (Inr s')"
    "append_all (records @ [serialize (entry_record e)]) record_writer_new = Some w'"
    "log_at s' (entries @ [e]) segments n (Some (case rng of Some (i, _) \<Rightarrow> (i, length entries + 2) | None \<Rightarrow> (length entries + 1, length entries + 2))) fs w'"
proof -
  from rw_append_total [OF written_extent [OF assms(2)], of "serialize (entry_record e)"] obtain w' where
    w': "rw_append (serialize (entry_record e)) w = Some w'" by blast
  have len: "length (ml_log (sl_memory_log s)) = length entries" using assms(1) by (metis length_map log_at_def)
  have last: "pos_index (sl_last_position s) = length entries"
    using assms(1,4) by (cases entries rule: rev_cases) (auto simp: log_at_def)
  from assms(1) obtain ends where segs: "sl_segments s = segments @ [\<lparr>sg_number = n, sg_index_range = rng, sg_open = Some \<lparr>os_writer = w, os_entry_end_offsets = ends\<rparr>, sg_discarded = False\<rparr>]"
    and dir: "sl_dir s = fs @ [(n, rw_file w)]" "n \<notin> fst ` set fs" and mem: "ml_prev (sl_memory_log s) = zero_position" "map fst (ml_log (sl_memory_log s)) = entries"
    unfolding log_at_def by blast
  let ?rng = "Some (case rng of Some (i, _) \<Rightarrow> (i, length entries + 2) | None \<Rightarrow> (length entries + 1, length entries + 2))"
  let ?m = "(sl_memory_log s)\<lparr>ml_log := ml_log (sl_memory_log s) @ [(e, q)]\<rparr>"
  have "ml_append (sl_memory_log s) e q = Some ?m"
    using len mem(1) assms(3) by (simp add: ml_append_def ml_last_index_def)
  then have "append_in_memory e q s = Some (s\<lparr>sl_memory_log := ?m,
    sl_segments := segments @ [\<lparr>sg_number = n, sg_index_range = ?rng, sg_open = Some \<lparr>os_writer = w, os_entry_end_offsets = ends\<rparr>, sg_discarded = False\<rparr>], sl_last_position := le_pos e\<rparr>)"
    using segs last assms(3) by (simp add: append_in_memory_def extend_segment_def split: option.split)
  then have "sl_append serialize e q s = Some (s\<lparr>sl_memory_log := ?m, sl_segments := segments @ [\<lparr>sg_number = n, sg_index_range = ?rng,
    sg_open = Some \<lparr>os_writer = w', os_entry_end_offsets = ends @ [(q, rw_current_size w')]\<rparr>, sg_discarded = False\<rparr>], sl_last_position := le_pos e,
    sl_dir := fs @ [(n, rw_file w')]\<rparr>)" (is "_ = Some ?s'")
    using w' dir(1) alist_ends(2) [OF dir(2)] by (simp add: sl_append_def)
  moreover have "log_at ?s' (entries @ [e]) segments n ?rng fs w'" using mem dir(2) by (simp add: log_at_def)
  ultimately have "\<exists>s'. sl_append serialize e q s = Some s' \<and> log_at s' (entries @ [e]) segments n ?rng fs w'" by blast
  with that w' assms(2) show thesis by (auto simp: seg_step_def append_all_snoc)
qed

lemma roll_log_at:
  assumes "log_at s entries segments n rng fs w" "n + 1 \<notin> fst ` set fs"
  obtains s' w' sg where "seg_step serialize Seg_roll s = Some (Inr s')"
    "append_all [serialize (header_record (sl_last_position s))] record_writer_new = Some w'"
    "log_at s' entries (segments @ [sg]) (n + 1) None (fs @ [(n, rw_file w)]) w'" "sg_number sg = n" "sg_index_range sg = rng" "\<not> sg_discarded sg"
proof -
  from assms(1) obtain ends where segs: "sl_segments s = segments @ [\<lparr>sg_number = n, sg_index_range = rng, sg_open = Some \<lparr>os_writer = w, os_entry_end_offsets = ends\<rparr>, sg_discarded = False\<rparr>]"
    (is "_ = _ @ [?sg]") and dir: "sl_dir s = fs @ [(n, rw_file w)]" "n \<notin> fst ` set fs"
    unfolding log_at_def by blast
  from rw_append_total [OF new_writer_whole, of "serialize (header_record (sl_last_position s))"] obtain w' where
    w': "rw_append (serialize (header_record (sl_last_position s))) record_writer_new = Some w'" by blast
  have k: "n + 1 \<notin> fst ` set (sl_dir s)" using assms(2) dir by simp
  let ?s' = "s\<lparr>sl_dir := sl_dir s @ [(n + 1, rw_file w')], sl_segments := sl_segments s @ [new_segment (n + 1) (Some \<lparr>os_writer = w', os_entry_end_offsets = []\<rparr>)]\<rparr>"
  have "seg_step serialize Seg_roll s = Some (Inr ?s')"
    using w' segs alist_ends(1) [OF k] k by (simp add: seg_step_def flusher_create_def create_new_segment_def create_file_def map_of_eq_None_iff)
  moreover have "log_at ?s' entries (segments @ [?sg]) (n + 1) None (fs @ [(n, rw_file w)]) w'"
    using assms k segs dir by (auto simp: log_at_def new_segment_def)
  ultimately show thesis using that [of ?s' w' ?sg] w' by simp
qed

text \<open>Two entries in the first file and one in the second.\<close>

definition two_files :: "segment_op list" where
  "two_files = [Seg_append (noop_entry 1 1) 1, Seg_append (noop_entry 1 2) 2, Seg_roll, Seg_append (noop_entry 1 3) 3]"

lemma two_files_run:
  obtains s0 s1 s w1 w2 w3 where "sl_open serialize parse [] = Some (Inr s0)" "seg_run serialize (take 1 two_files) s0 = Some (Inr s1)" "seg_run serialize two_files s0 = Some (Inr s)"
    "append_all (segment_records serialize zero_position [noop_entry 1 1]) record_writer_new = Some w1" "sl_dir s1 = [(1, rw_file w1)]" "sl_entry s1 1 \<noteq> None"
    "append_all (segment_records serialize zero_position [noop_entry 1 1, noop_entry 1 2]) record_writer_new = Some w2"
    "append_all (segment_records serialize (new_position 1 2) [noop_entry 1 3]) record_writer_new = Some w3"
    "sl_dir s = [(1, rw_file w2), (2, rw_file w3)]"
proof -
  obtain s0 w0 where 0: "sl_open serialize parse [] = Some (Inr s0)" "append_all [serialize (header_record zero_position)] record_writer_new = Some w0" "log_at s0 [] [] 1 None [] w0"
    by (rule new_log_at)
  obtain s1 w1 rng1 where 1: "seg_step serialize (Seg_append (noop_entry 1 1) 1) s0 = Some (Inr s1)"
    "append_all [serialize (header_record zero_position), serialize (entry_record (noop_entry 1 1))] record_writer_new = Some w1" "log_at s1 [noop_entry 1 1] [] 1 rng1 [] w1"
    by (rule append_log_at [OF 0(3,2), of "noop_entry 1 1" serialize 1]) auto
  obtain s2 w2 rng2 where 2: "seg_step serialize (Seg_append (noop_entry 1 2) 2) s1 = Some (Inr s2)"
    "append_all [serialize (header_record zero_position), serialize (entry_record (noop_entry 1 1)), serialize (entry_record (noop_entry 1 2))] record_writer_new = Some w2"
    "log_at s2 [noop_entry 1 1, noop_entry 1 2] [] 1 rng2 [] w2"
    by (rule append_log_at [OF 1(3,2), of "noop_entry 1 2" serialize 2]) auto
  have p: "sl_last_position s2 = new_position 1 2" using 2(3) by (simp add: log_at_def)
  obtain s3 w3 sg where 3: "seg_step serialize Seg_roll s2 = Some (Inr s3)" "append_all [serialize (header_record (new_position 1 2))] record_writer_new = Some w3"
    "log_at s3 [noop_entry 1 1, noop_entry 1 2] [sg] 2 None [(1, rw_file w2)] w3"
    by (rule roll_log_at [OF 2(3), of serialize]) (auto simp: p numeral_2_eq_2)
  obtain s4 w4 rng4 where 4: "seg_step serialize (Seg_append (noop_entry 1 3) 3) s3 = Some (Inr s4)"
    "append_all [serialize (header_record (new_position 1 2)), serialize (entry_record (noop_entry 1 3))] record_writer_new = Some w4"
    "log_at s4 [noop_entry 1 1, noop_entry 1 2, noop_entry 1 3] [sg] 2 rng4 [(1, rw_file w2)] w4"
    by (rule append_log_at [OF 3(3,2), of "noop_entry 1 3" serialize 3]) auto
  have "sl_entry s1 1 \<noteq> None" using 1(3) by (auto simp: sl_entry_def ml_entry_def off_for_def log_at_def zero_position_def index_vec_def)
  then show thesis
    using that [of s0 s1 s4 w1 w2 w4] 0 1 2 3 4 by (simp add: two_files_def segment_records_def) (simp add: log_at_def)
qed

lemmas replay_eval = append_in_memory_def ml_append_def ml_last_index_def off_for_def push_segment_def empty_segmented_log_def
  new_segment_def update_last_def extend_segment_def truncate_segment_def discard_segment_def ml_new_def zero_position_def new_position_def

lemma open_first_file:
  assumes "codec serialize parse" "append_all (segment_records serialize zero_position [noop_entry 1 1]) record_writer_new = Some w"
  obtains r t where "open_file parse (1, rw_file w) (empty_segmented_log d, None) = Some (Inr (t, Some r))"
    "map fst (ml_log (sl_memory_log t)) = [noop_entry 1 1]" "ml_prev (sl_memory_log t) = zero_position" "sl_last_position t = new_position 1 1"
proof -
  from read_all_written [OF assms(2)] obtain r where
    r: "read_all (record_reader_open (rw_file w)) = Some (r, Inr (segment_records serialize zero_position [noop_entry 1 1]))" by blast
  have "open_header zero_position (empty_segmented_log d) = Some (Inr (empty_segmented_log d))"
    by (simp add: open_header_def empty_segmented_log_def)
  from open_file_records [OF assms(1) r this, of 1 None] that show thesis
    by (simp add: replay_eval noop_entry_def)
qed

lemma open_header_gap:
  assumes "map fst (ml_log (sl_memory_log t)) = [noop_entry 1 1]" "ml_prev (sl_memory_log t) = zero_position" "sl_last_position t = new_position 1 1"
  shows "open_header (new_position 1 2) t = Some (Inr (t\<lparr>sl_memory_log := \<lparr>ml_prev = new_position 1 2, ml_log = []\<rparr>,
    sl_last_position := new_position 1 2, sl_segments := map discard_segment (sl_segments t)\<rparr>))"
proof -
  from assms(1) obtain q where "ml_log (sl_memory_log t) = [(noop_entry 1 1, q)]" by (auto simp: map_eq_Cons_conv)
  with assms(2,3) show ?thesis
    by (simp add: open_header_def ml_discard_def ml_last_index_def ml_term_def off_for_def zero_position_def new_position_def noop_entry_def index_vec_def)
qed

section \<open>Theorems\<close>





text \<open>
  C25: A crash in the middle loses entries that are on disk. Files are synced independently, so a
  crash can cut off a file although the one after it is complete. The header of the later file
  then does not continue the log, and opening takes this for a discard: the first entry, whose
  bytes are all there, is gone, and the lost second entry counts as discarded.
\<close>

theorem torn_middle_file_loses_log:
  assumes "codec serialize parse"
  shows "\<exists>s0 s1 s t. sl_open serialize parse [] = Some (Inr s0) \<and> seg_run serialize (take 1 two_files) s0 = Some (Inr s1)
    \<and> seg_run serialize two_files s0 = Some (Inr s) \<and> survives (sl_dir s1 @ tl (sl_dir s)) (sl_dir s1)
    \<and> sl_open serialize parse (sl_dir s1 @ tl (sl_dir s)) = Some (Inr t)
    \<and> sl_entry s1 1 \<noteq> None \<and> sl_entry t 1 = None \<and> sl_prev t = new_position 1 2"
proof -
  let ?e = "noop_entry 1 3"
  obtain s0 s1 s w1 w2 w3 where run: "sl_open serialize parse [] = Some (Inr s0)" "seg_run serialize (take 1 two_files) s0 = Some (Inr s1)" "seg_run serialize two_files s0 = Some (Inr s)"
    and w: "append_all (segment_records serialize zero_position [noop_entry 1 1]) record_writer_new = Some w1" and d1: "sl_dir s1 = [(1, rw_file w1)]" "sl_entry s1 1 \<noteq> None"
      "append_all (segment_records serialize zero_position [noop_entry 1 1, noop_entry 1 2]) record_writer_new = Some w2"
    and w3: "append_all (segment_records serialize (new_position 1 2) [?e]) record_writer_new = Some w3"
    and d: "sl_dir s = [(1, rw_file w2), (2, rw_file w3)]" by (rule two_files_run)
  let ?d = "[(1, rw_file w1), (2, rw_file w3)] :: log_directory"
  obtain r1 t1 where t1: "open_file parse (1, rw_file w1) (empty_segmented_log ?d, None) = Some (Inr (t1, Some r1))"
    "map fst (ml_log (sl_memory_log t1)) = [noop_entry 1 1]" "ml_prev (sl_memory_log t1) = zero_position" "sl_last_position t1 = new_position 1 1"
    by (rule open_first_file [OF assms w, of ?d])
  let ?t = "push_segment 2 (t1\<lparr>sl_memory_log := \<lparr>ml_prev = new_position 1 2, ml_log = []\<rparr>, sl_last_position := new_position 1 2, sl_segments := map discard_segment (sl_segments t1)\<rparr>)"
  from read_all_written [OF w3] obtain r3 where r3: "read_all (record_reader_open (rw_file w3)) = Some (r3, Inr (segment_records serialize (new_position 1 2) [?e]))"
    "into_writer True r3 = Some (Inr (Some w3))" .
  have "\<exists>t2. replay [?e] ?t = Some t2 \<and> ml_prev (sl_memory_log t2) = new_position 1 2"
    by (simp add: append_in_memory_def ml_append_def ml_last_index_def push_segment_def new_position_def)
  then obtain t2 where t2: "replay [?e] ?t = Some t2" "ml_prev (sl_memory_log t2) = new_position 1 2" by blast
  have live: "ends_live (sl_segments t2)" using replay_frame [OF t2(1)] by simp
  have "sorted (map fst ?d)" by simp
  note finish = sl_open_finish [OF this _ r3(2) live, of parse serialize]
  have "open_files parse ?d (empty_segmented_log ?d, None) = Some (Inr (t2, Some r3))"
    using open_file_records [OF assms r3(1) open_header_gap [OF t1(2-4)], of 2 "Some r1"] t1(1) t2(1) by (simp add: push_segment_def)
  from finish [OF this] obtain t where t: "sl_open serialize parse ?d = Some (Inr t)" "live_view t = live_view t2" by blast
  then have "sl_prev t = new_position 1 2" "sl_entry t 1 = None"
    using t2(2) by (auto simp: live_view_def sl_prev_def sl_entry_def ml_entry_def off_for_def)
  with run d d1 t show ?thesis by (intro exI [of _ s0] exI [of _ s1] exI [of _ s] exI [of _ t]) (simp add: survives_def)
qed

theorem torn_middle_file_loses_log_witness:
  "codec sample_serialize sample_parse \<and> (\<exists>s0 s1 s t. sl_open sample_serialize sample_parse [] = Some (Inr s0)
     \<and> seg_run sample_serialize (take 1 two_files) s0 = Some (Inr s1) \<and> seg_run sample_serialize two_files s0 = Some (Inr s)
     \<and> sl_open sample_serialize sample_parse (sl_dir s1 @ tl (sl_dir s)) = Some (Inr t) \<and> sl_entry s1 1 \<noteq> None \<and> sl_entry t 1 = None)"
  using torn_middle_file_loses_log [OF sample_codec] sample_codec by blast

text \<open>Three files with an entry each; then the entries from the second on are replaced.\<close>

definition replaced_file :: "segment_op list" where
  "replaced_file = [Seg_append (noop_entry 1 1) 1, Seg_roll, Seg_append (noop_entry 1 2) 2, Seg_roll, Seg_append (noop_entry 1 3) 3,
     Seg_append (noop_entry 2 2) 4]"

lemma replace_log_at:
  assumes "log_at s [noop_entry 1 1, noop_entry 1 2, noop_entry 1 3] [sg1, sg2] 3 (Some (3, 4)) fs w" "append_all records record_writer_new = Some w"
    and "sg_index_range sg1 = Some (1, 2)" "sg_index_range sg2 = Some (2, 3)"
  obtains s' w' sg where "seg_step serialize (Seg_append (noop_entry 2 2) 4) s = Some (Inr s')"
    "append_all (records @ [serialize (entry_record (noop_entry 2 2))]) record_writer_new = Some w'" "sl_segments s' = [sg1, discard_segment sg2, sg]" "\<not> sg_discarded sg"
    "sl_dir s' = fs @ [(3, rw_file w')]"
proof -
  from rw_append_total [OF written_extent [OF assms(2)], of "serialize (entry_record (noop_entry 2 2))"] obtain w' where
    w': "rw_append (serialize (entry_record (noop_entry 2 2))) w = Some w'" by blast
  from assms(1) obtain ends where segs: "sl_segments s = [sg1, sg2, \<lparr>sg_number = 3, sg_index_range = Some (3, 4), sg_open = Some \<lparr>os_writer = w, os_entry_end_offsets = ends\<rparr>, sg_discarded = False\<rparr>]"
    and dir: "sl_dir s = fs @ [(3, rw_file w)]" "3 \<notin> fst ` set fs" and mem: "ml_prev (sl_memory_log s) = zero_position"
      "map fst (ml_log (sl_memory_log s)) = [noop_entry 1 1, noop_entry 1 2, noop_entry 1 3]" and last: "sl_last_position s = new_position 1 3"
    unfolding log_at_def by auto
  from mem(2) have "length (ml_log (sl_memory_log s)) = 3" by (metis One_nat_def Suc_eq_plus1 length_map list.size(3,4) numeral_3_eq_3)
  let ?m = "(sl_memory_log s)\<lparr>ml_log := take 1 (ml_log (sl_memory_log s)) @ [(noop_entry 2 2, 4)]\<rparr>"
  from \<open>length _ = _\<close> mem(1) have "ml_append (sl_memory_log s) (noop_entry 2 2) 4 = Some ?m"
    by (simp add: ml_append_def ml_last_index_def off_for_def zero_position_def new_position_def)
  then have "append_in_memory (noop_entry 2 2) 4 s = Some (s\<lparr>sl_memory_log := ?m, sl_segments := [sg1, discard_segment sg2,
    \<lparr>sg_number = 3, sg_index_range = Some (2, 3), sg_open = Some \<lparr>os_writer = w, os_entry_end_offsets = ends\<rparr>, sg_discarded = False\<rparr>], sl_last_position := new_position 2 2\<rparr>)"
    using segs last assms(3,4)
    by (simp add: append_in_memory_def new_position_def truncate_segment_def extend_segment_def discard_segment_def update_last_def)
  then have "\<exists>s' sg. sl_append serialize (noop_entry 2 2) 4 s = Some s' \<and> sl_segments s' = [sg1, discard_segment sg2, sg] \<and> \<not> sg_discarded sg \<and> sl_dir s' = fs @ [(3, rw_file w')]"
    using w' dir(1) alist_ends(2) [OF dir(2)] by (auto simp: sl_append_def)
  with that w' assms(2) show thesis by (auto simp: seg_step_def append_all_snoc)
qed

lemma replaced_file_run:
  obtains s0 s w1 and w2 :: record_writer and w3 sg1 sg2 sg3 where "sl_open serialize parse [] = Some (Inr s0)" "seg_run serialize replaced_file s0 = Some (Inr s)"
    "append_all (segment_records serialize zero_position [noop_entry 1 1]) record_writer_new = Some w1"
    "append_all (segment_records serialize (new_position 1 2) [noop_entry 1 3, noop_entry 2 2]) record_writer_new = Some w3"
    "sl_segments s = [sg1, discard_segment sg2, sg3]" "\<not> sg_discarded sg1" "sg_number sg2 = 2" "\<not> sg_discarded sg3"
    "sl_dir s = [(1, rw_file w1), (2, rw_file w2), (3, rw_file w3)]"
proof -
  let ?h = "\<lambda>p. serialize (header_record p)" and ?e = "\<lambda>t i. serialize (entry_record (noop_entry t i))"
  obtain s0 w0 where 0: "sl_open serialize parse [] = Some (Inr s0)" "append_all [?h zero_position] record_writer_new = Some w0" "log_at s0 [] [] 1 None [] w0"
    by (rule new_log_at)
  obtain s1 w1 where 1: "seg_step serialize (Seg_append (noop_entry 1 1) 1) s0 = Some (Inr s1)"
    "append_all [?h zero_position, ?e 1 1] record_writer_new = Some w1" "log_at s1 [noop_entry 1 1] [] 1 (Some (1, 2)) [] w1"
    by (rule append_log_at [OF 0(3,2), of "noop_entry 1 1" serialize 1]) (auto simp: numeral_2_eq_2)
  have p1: "sl_last_position s1 = new_position 1 1" using 1(3) by (simp add: log_at_def)
  obtain s2 w2 sg1 where 2: "seg_step serialize Seg_roll s1 = Some (Inr s2)" "append_all [?h (new_position 1 1)] record_writer_new = Some w2"
    "log_at s2 [noop_entry 1 1] [sg1] 2 None [(1, rw_file w1)] w2" "sg_index_range sg1 = Some (1, 2)" "\<not> sg_discarded sg1"
    by (rule roll_log_at [OF 1(3), of serialize]) (auto simp: p1 numeral_2_eq_2)
  obtain s3 w3 where 3: "seg_step serialize (Seg_append (noop_entry 1 2) 2) s2 = Some (Inr s3)"
    "append_all [?h (new_position 1 1), ?e 1 2] record_writer_new = Some w3" "log_at s3 [noop_entry 1 1, noop_entry 1 2] [sg1] 2 (Some (2, 3)) [(1, rw_file w1)] w3"
    by (rule append_log_at [OF 2(3,2), of "noop_entry 1 2" serialize 2]) (auto simp: numeral_2_eq_2 numeral_3_eq_3)
  have p3: "sl_last_position s3 = new_position 1 2" using 3(3) by (simp add: log_at_def)
  obtain s4 w4 sg2 where 4: "seg_step serialize Seg_roll s3 = Some (Inr s4)" "append_all [?h (new_position 1 2)] record_writer_new = Some w4"
    "log_at s4 [noop_entry 1 1, noop_entry 1 2] [sg1, sg2] 3 None [(1, rw_file w1), (2, rw_file w3)] w4" "sg_number sg2 = 2" "sg_index_range sg2 = Some (2, 3)"
    by (rule roll_log_at [OF 3(3), of serialize]) (auto simp: p3)
  obtain s5 w5 where 5: "seg_step serialize (Seg_append (noop_entry 1 3) 3) s4 = Some (Inr s5)" "append_all [?h (new_position 1 2), ?e 1 3] record_writer_new = Some w5"
    "log_at s5 [noop_entry 1 1, noop_entry 1 2, noop_entry 1 3] [sg1, sg2] 3 (Some (3, 4)) [(1, rw_file w1), (2, rw_file w3)] w5"
    by (rule append_log_at [OF 4(3,2), of "noop_entry 1 3" serialize 3]) (auto simp: numeral_3_eq_3 numeral_eq_Suc)
  obtain s6 w6 sg3 where 6: "seg_step serialize (Seg_append (noop_entry 2 2) 4) s5 = Some (Inr s6)" "append_all [?h (new_position 1 2), ?e 1 3, ?e 2 2] record_writer_new = Some w6"
    "sl_segments s6 = [sg1, discard_segment sg2, sg3]" "\<not> sg_discarded sg3" "sl_dir s6 = [(1, rw_file w1), (2, rw_file w3), (3, rw_file w6)]"
    by (rule replace_log_at [OF 5(3,2) 2(4) 4(5), of serialize]) auto
  show thesis
    using that [of s0 s6 w1 w6 sg1 sg2 sg3 w3] 0 1 2 3 4 5 6 by (simp add: replaced_file_def segment_records_def)
qed

lemma scan_dropped: "fst (snd (flusher_round opts synced p q segs)) = map sg_number (filter sg_discarded segs)"
proof (induction segs arbitrary: p q)
  case (Cons sg rest)
  then show ?case by (cases "sg_discarded sg"; cases "sg_open sg") (simp_all add: Let_def case_prod_unfold)
qed simp

lemma replaced_file_scan:
  assumes "sl_segments s = [sg1, discard_segment sg2, sg3]" "\<not> sg_discarded sg1" "sg_number sg2 = 2" "\<not> sg_discarded sg3"
  shows "fst (snd (flusher_scan opts synced s)) = [2]" "sl_dir (fst (flusher_scan opts synced s)) = sl_dir s"
  using scan_dropped [of opts synced False "sl_last_flushed s" "sl_segments s"] assms
  by (simp_all add: flusher_scan_def case_prod_unfold Let_def discard_segment_def del: flusher_round.simps)

text \<open>
  C26: Deleting a replaced file makes the log unreadable. When entries are replaced from the
  second file on, the flusher drops and deletes this file, which holds none of the entries any
  more. The file after it begins with a header for a position that the first file does not
  reach, so opening discards everything up to it, and panics at the replacement, whose index is
  not above that position.
\<close>

theorem deleted_file_breaks_open:
  assumes "codec serialize parse"
  shows "\<exists>s0 s. sl_open serialize parse [] = Some (Inr s0) \<and> seg_run serialize replaced_file s0 = Some (Inr s)
    \<and> fst (snd (flusher_scan opts synced s)) = [2]
    \<and> sl_open serialize parse (sl_dir (flusher_delete [2] (fst (flusher_scan opts synced s)))) = None"
proof -
  obtain s0 s w1 and w2 :: record_writer and w3 sg1 sg2 sg3 where run: "sl_open serialize parse [] = Some (Inr s0)" "seg_run serialize replaced_file s0 = Some (Inr s)"
    and w1: "append_all (segment_records serialize zero_position [noop_entry 1 1]) record_writer_new = Some w1"
    and w3: "append_all (segment_records serialize (new_position 1 2) [noop_entry 1 3, noop_entry 2 2]) record_writer_new = Some w3"
    and segs: "sl_segments s = [sg1, discard_segment sg2, sg3]" "\<not> sg_discarded sg1" "sg_number sg2 = 2" "\<not> sg_discarded sg3"
    and d: "sl_dir s = [(1, rw_file w1), (2, rw_file w2), (3, rw_file w3)]" by (rule replaced_file_run)
  let ?d = "[(1, rw_file w1), (3, rw_file w3)] :: log_directory"
  note scan = replaced_file_scan [OF segs]
  have dir: "sl_dir (flusher_delete [2] (fst (flusher_scan opts synced s))) = ?d"
    using scan(2) d by (simp add: flusher_delete_def AList.delete_eq)
  obtain r1 t1 where t1: "open_file parse (1, rw_file w1) (empty_segmented_log ?d, None) = Some (Inr (t1, Some r1))"
    "map fst (ml_log (sl_memory_log t1)) = [noop_entry 1 1]" "ml_prev (sl_memory_log t1) = zero_position" "sl_last_position t1 = new_position 1 1"
    by (rule open_first_file [OF assms w1, of ?d])
  from read_all_written [OF w3] obtain r3 where r3: "read_all (record_reader_open (rw_file w3)) = Some (r3, Inr (segment_records serialize (new_position 1 2) [noop_entry 1 3, noop_entry 2 2]))" .
  have "open_file parse (3, rw_file w3) (t1, Some r1) = None"
    using open_file_records [OF assms r3 open_header_gap [OF t1(2-4)], of 3 "Some r1"]
    by (simp add: append_in_memory_def ml_append_def ml_last_index_def off_for_def new_position_def)
  with t1(1) have "open_files parse ?d (empty_segmented_log ?d, None) = None" by simp
  then have "sl_open serialize parse ?d = None" by (simp add: sl_open_def)
  with run scan(1) dir show ?thesis by metis
qed

theorem deleted_file_breaks_open_witness:
  "codec sample_serialize sample_parse \<and> (\<exists>s0 s. sl_open sample_serialize sample_parse [] = Some (Inr s0)
     \<and> seg_run sample_serialize replaced_file s0 = Some (Inr s)
     \<and> sl_open sample_serialize sample_parse (sl_dir (flusher_delete [2] (fst (flusher_scan default_segmented_log_options (\<lambda>_. 0) s)))) = None)"
  using deleted_file_breaks_open [OF sample_codec, of default_segmented_log_options "\<lambda>_. 0"] sample_codec by blast

end
