(* ===== verification/Spec2Isabelle.thy ===== *)
theory Spec2Isabelle
  imports Algorithms Quorum Memory_Log Config_State Random_Draw Consensus_Properties Cluster_Properties
    Leader_Commit Log_Writer Segmented_Recovery
begin

text \<open>
  A verification library for the Raft consensus implementation of this repository
  (\<open>src/pkg/raft\<close>) and the routines of the other packages it rests on.

  \<^bold>\<open>The program.\<close> A Raft server owns a \<open>ConsensusModule\<close> (\<open>raft/src/consensus/module.rs\<close>).
  The module does no input or output. It is called with a message, a flush notification or
  the passing of time, changes its own state, and writes what the server has to do (persist
  metadata, append entries, send messages, wait) into a \<open>Tick\<close>. It knows the log only
  through \<open>LogMetadata\<close> (\<open>raft/src/log/log_metadata.rs\<close>), a compressed map from indexes to
  terms and sequences; the log itself is a \<open>Log\<close>, of which \<open>MemoryLog\<close> is the in-memory
  implementation. The cluster's membership is a \<open>ConfigurationStateMachine\<close>. Answers that
  must wait for a flush are wrapped in a \<open>FlushConstraint\<close>. Searches use the binary search
  of \<open>common/src/algorithms\<close>; timeouts and the choice of a successor use
  \<open>crypto/src/random.rs\<close>. On disk the log is a \<open>SegmentedLog\<close> (\<open>raft/src/log/segmented_log.rs\<close>):
  a directory of record logs (\<open>sstable/src/record_log.rs\<close>), each written through a \<open>LogWriter\<close>
  (\<open>sstable/src/log_writer.rs\<close>) that syncs in the background; every fragment of a record
  carries a CRC-32C checksum (\<open>crypto/src/checksum/crc.rs\<close>).

  \<^bold>\<open>Conventions.\<close> A panic (failed assertion, \<open>unwrap\<close>, index out of range, underflow of an
  unsigned subtraction) is \<^term>\<open>None\<close> and the code is written in the option monad. A Rust
  \<open>Result\<close> is a sum inside that option. The typed 64-bit counters (terms, indexes, request
  ids) are natural numbers; random draws are 64-bit words. An \<open>Instant\<close> or \<open>Duration\<close> is an
  integer number of nanoseconds. A \<open>HashMap\<close> is an association list whose order is part of
  the state, so a statement about every state covers every iteration order. An operation with
  \<open>&mut self\<close> and \<open>&mut Tick\<close> takes both and returns both.

  \<^bold>\<open>Theories, in the order of the code they model.\<close>
  \<^item> \<open>Prelude\<close>: assertions, checked subtraction, vector indexing, time, list facts.
  \<^item> \<open>Algorithms\<close>: \<open>SliceLike\<close> and the two binary searches, with termination and their
    agreement with the linear search on sorted data.
  \<^item> \<open>Raft_Proto\<close>: the messages and \<open>proto/lib.rs\<close>; \<open>Quorum\<close>: majorities, and that those of
    one configuration and of two configurations one change apart intersect.
  \<^item> \<open>Log_Metadata\<close>, \<open>Memory_Log\<close>: both logs, and that each implements the abstract log of
    positions; flush constraints.
  \<^item> \<open>Config_State\<close>: the configuration state machine. \<open>Random_Draw\<close>: random choices.
  \<^item> \<open>Consensus_State\<close>: the data of \<open>state.rs\<close>, \<open>tick.rs\<close>, \<open>module.rs\<close> and the constructor.
  \<^item> \<open>Consensus_Leader\<close>: commit and lease computation, heartbeats, replication.
  \<^item> \<open>Consensus_Cycle\<close>: elections, proposals and \<open>cycle\<close>.
  \<^item> \<open>Consensus_Handlers\<close>: every other public operation of the module.
  \<^item> \<open>Consensus_Frames\<close>: what each elementary step may change.
  \<^item> \<open>Consensus_Relation\<close>: a locale of laws for elementary steps which, when a relation obeys
    them, give that \<open>cycle\<close> obeys it; its first instance shows that the recursion of
    \<open>cycle\<close> is bounded.
  \<^item> \<open>Consensus_Events\<close>: all calls as one event type, and the locale that lifts a relation
    to all of them.
  \<^item> \<open>Consensus_Safety\<close>: the relations that hold of all events (votes are final, the commit
    index grows, changes are announced) and the reachable states.
  \<^item> \<open>Consensus_Properties\<close>: these as statements about single calls and reachable states.
  \<^item> \<open>Consensus_Election\<close>, \<open>Cluster\<close>, \<open>Cluster_Properties\<close>: what a single server keeps of the
    votes it casts and counts, a step relation of servers that exchange packets over a lossy
    network, crash and restart, and that a term has at most one leader.
  \<^item> \<open>Leader_Commit\<close>: which index the leader commits and which lease it takes.
  \<^item> \<open>Crc\<close>: the checksums, by table and by bit. \<open>Record_Log\<close>: writer and reader of a record log
    over the bytes of its file; \<open>Record_Roundtrip\<close>: that the reader returns what was written, also
    from a file cut off at any byte. \<open>Log_Writer\<close>: the syncing writer as a transition system.
  \<^item> \<open>Segmented_Log\<close>: the log on disk; \<open>Segmented_Recovery\<close>: what opening it again recovers.

  \<^bold>\<open>Recursion and fuel.\<close> \<open>cycle\<close> calls itself through elections and proposals. It is the
  iteration of \<open>cycle_body\<close> up to \<open>cycle_depth\<close>, and the result is independent of what
  stands at the bottom, so it satisfies the code's recursive equation (\<open>cycle_unfold\<close>). The
  loop of \<open>replicate_entries\<close> runs with the bound of the code's own assertion, 10000.

  \<^bold>\<open>Not modelled.\<close> Everything that performs input and output around the module (the server
  and its tasks, the RPC stack, the file system below the log files), and the packages of the repository that the consensus
  code does not use.
\<close>

end
